theory Spec2Isabelle
  imports Complex_Main "HOL-Library.Multiset"
begin

section \<open>Values thrown and caught\<close>

text \<open>
  A JavaScript \<^verbatim>\<open>catch\<close> receives any value. \<^verbatim>\<open>withErrorMessage\<close> only
  distinguishes an \<^verbatim>\<open>Error\<close> instance (with its message) from everything else.
\<close>

datatype thrown = ErrorObject string | OtherThrown

definition DEFAULT_ERROR :: string where
  "DEFAULT_ERROR = ''Unexpected response from Google APIs.''"

fun withErrorMessage :: "thrown \<Rightarrow> string" where
  "withErrorMessage (ErrorObject m) = (if m \<noteq> [] then m else DEFAULT_ERROR)"
| "withErrorMessage OtherThrown = DEFAULT_ERROR"

section \<open>Report responses and summary mode\<close>

text \<open>
  A row of a \<^verbatim>\<open>RunReportResponse\<close>. Both arrays are optional, and so is the
  \<^verbatim>\<open>value\<close> field of each entry. A metric entry is kept as the number that
  \<^verbatim>\<open>Number(value)\<close> yields; the Data API sends the newUsers metric as a decimal
  integer string, so metric numbers are integers here. The quotient \<^verbatim>\<open>pct\<close> is
  an exact rational.
\<close>

record ReportRow =
  dimensionValues :: "string option list option"
  metricValues :: "int option list option"

record RunReportResponse =
  rows :: "ReportRow list option"

record NewUsersDelta =
  current :: int
  previous :: int
  delta :: int
  pct :: "rat option"

text \<open>\<^verbatim>\<open>row.dimensionValues?.[0]?.value\<close>\<close>

definition row_label :: "ReportRow \<Rightarrow> string option" where
  "row_label row =
     (case dimensionValues row of
        None \<Rightarrow> None
      | Some [] \<Rightarrow> None
      | Some (d # _) \<Rightarrow> d)"

text \<open>\<^verbatim>\<open>Number(entry?.value ?? 0)\<close> for an entry that may be missing.\<close>

definition metric_number :: "int option option \<Rightarrow> int" where
  "metric_number entry =
     (case entry of None \<Rightarrow> 0 | Some None \<Rightarrow> 0 | Some (Some v) \<Rightarrow> v)"

text \<open>\<^verbatim>\<open>xs?.[i]\<close>: the entry at an index, if the array and the index exist.\<close>

definition opt_nth :: "'a list option \<Rightarrow> nat \<Rightarrow> 'a option" where
  "opt_nth xs i =
     (case xs of None \<Rightarrow> None
      | Some ys \<Rightarrow> (if i < length ys then Some (ys ! i) else None))"

text \<open>\<^verbatim>\<open>xs?.length\<close> or \<^verbatim>\<open>(xs ?? []).length\<close>, read as a count.\<close>

definition opt_length :: "'a list option \<Rightarrow> nat" where
  "opt_length xs = (case xs of None \<Rightarrow> 0 | Some ys \<Rightarrow> length ys)"

text \<open>\<^verbatim>\<open>data.rows ?? []\<close>\<close>

definition response_rows :: "RunReportResponse \<Rightarrow> ReportRow list" where
  "response_rows data = (case rows data of None \<Rightarrow> [] | Some xs \<Rightarrow> xs)"

text \<open>One pass of the \<^verbatim>\<open>for (const row of rows)\<close> loop of fetchNewUsers.\<close>

definition label_step :: "int \<times> int \<Rightarrow> ReportRow \<Rightarrow> int \<times> int" where
  "label_step acc row =
     (let label = row_label row;
          v = metric_number (opt_nth (metricValues row) 0)
      in if label = Some ''date_range_0'' then (v, snd acc)
         else if label = Some ''date_range_1'' then (fst acc, v)
         else acc)"

text \<open>
  The body of fetchNewUsers after the response has arrived: the loop, the two special
  response shapes, then delta and pct.
\<close>

definition newUsersOfResponse :: "RunReportResponse \<Rightarrow> NewUsersDelta" where
  "newUsersOfResponse data =
     (let rs = response_rows data;
          looped = foldl label_step (0, 0) rs;
          cp =
            (if rs = [] then (0, 0)
             else if length rs = 1 \<and> opt_length (dimensionValues (hd rs)) = 0
             then
               (let vals = metricValues (hd rs)
                in if 2 \<le> opt_length vals
                   then (metric_number (opt_nth vals 0), metric_number (opt_nth vals 1))
                   else looped)
             else looped);
          c = fst cp;
          p = snd cp;
          d = c - p
      in \<lparr>current = c, previous = p, delta = d,
          pct = (if p = 0 then None else Some (of_int d / of_int p))\<rparr>)"

text \<open>
  fetchNewUsers: the report request either throws (\<^verbatim>\<open>fetchJson\<close> rejects) or yields
  a response, and nothing after the request throws.
\<close>

definition fetchNewUsers :: "thrown + RunReportResponse \<Rightarrow> thrown + NewUsersDelta" where
  "fetchNewUsers fetched =
     (case fetched of Inl e \<Rightarrow> Inl e | Inr data \<Rightarrow> Inr (newUsersOfResponse data))"

section \<open>Calendar days\<close>

text \<open>
  Every \<^verbatim>\<open>Date\<close> the module builds is a UTC midnight, so a valid date is kept as
  its day number (days since 1970-01-01) and \<open>None\<close> is the Invalid Date. The built-in
  getters and \<^verbatim>\<open>Date.UTC\<close> follow the proleptic Gregorian calendar; the conversion
  counts from 0000-03-01 in cycles of 400, 100, 4 and 1 years. A day number is in range
  when its time value is within \<open>8.64e15\<close> milliseconds of the epoch.
\<close>

type_synonym jsdate = "int option"

definition TimeClip :: "int \<Rightarrow> jsdate" where
  "TimeClip z = (if \<bar>z\<bar> \<le> 100000000 then Some z else None)"

definition civil_from_days :: "int \<Rightarrow> int \<times> int \<times> int" where
  "civil_from_days z =
     (let s = z + 719468;
          era = s div 146097;
          doe = s mod 146097;
          c = min 3 (doe div 36524);
          d2 = doe - c * 36524;
          q = d2 div 1461;
          d3 = d2 mod 1461;
          a = min 3 (d3 div 365);
          doy = d3 - a * 365;
          y = era * 400 + c * 100 + q * 4 + a;
          mp = (5 * doy + 2) div 153;
          d = doy - (153 * mp + 2) div 5 + 1;
          m = (if mp < 10 then mp + 3 else mp - 9)
      in (if m \<le> 2 then y + 1 else y, m, d))"

definition days_from_civil :: "int \<Rightarrow> int \<Rightarrow> int \<Rightarrow> int" where
  "days_from_civil y m d =
     (let y' = (if m \<le> 2 then y - 1 else y);
          era = y' div 400;
          yoe = y' mod 400;
          mp = (if 2 < m then m - 3 else m + 9);
          doy = (153 * mp + 2) div 5 + d - 1;
          doe = yoe * 365 + yoe div 4 - yoe div 100 + doy
      in era * 146097 + doe - 719468)"

text \<open>
  \<^verbatim>\<open>MakeDay(year, month, date)\<close> with a zero-based month that may lie outside
  \<open>0..11\<close> and any day of the month, as \<^verbatim>\<open>Date.UTC\<close> and
  \<^verbatim>\<open>setUTCDate\<close> use it.
\<close>

definition MakeDay :: "int \<Rightarrow> int \<Rightarrow> int \<Rightarrow> int" where
  "MakeDay year month dt =
     days_from_civil (year + month div 12) (month mod 12 + 1) 1 + dt - 1"

text \<open>\<^verbatim>\<open>new Date(Date.UTC(year, month, day))\<close>; a year from 0 to 99 means 1900 + year.\<close>

definition DateUTC :: "int \<Rightarrow> int \<Rightarrow> int \<Rightarrow> jsdate" where
  "DateUTC year month dt =
     (let yr = (if 0 \<le> year \<and> year \<le> 99 then 1900 + year else year)
      in TimeClip (MakeDay yr month dt))"

text \<open>
  addDays copies the date and calls \<^verbatim>\<open>setUTCDate(getUTCDate() + amount)\<close>. The
  amount is a JavaScript number: \<open>None\<close> stands for NaN, which is what arithmetic on an
  undefined window length produces.
\<close>

definition addDays :: "jsdate \<Rightarrow> int option \<Rightarrow> jsdate" where
  "addDays date amount =
     (case date of
        None \<Rightarrow> None
      | Some z \<Rightarrow>
          (case amount of
             None \<Rightarrow> None
           | Some k \<Rightarrow>
               (case civil_from_days z of
                  (y, m, d) \<Rightarrow> TimeClip (MakeDay y (m - 1) (d + k)))))"

subsection \<open>Decimal strings\<close>

definition digit_char :: "nat \<Rightarrow> char" where
  "digit_char k = ''0123456789'' ! k"

fun string_of_nat :: "nat \<Rightarrow> string" where
  "string_of_nat n =
     (if n < 10 then [digit_char n]
      else string_of_nat (n div 10) @ [digit_char (n mod 10)])"

declare string_of_nat.simps [simp del]

definition string_of_int :: "int \<Rightarrow> string" where
  "string_of_int i =
     (if i < 0 then CHR ''-'' # string_of_nat (nat (- i)) else string_of_nat (nat i))"

text \<open>\<^verbatim>\<open>s.padStart(2, "0")\<close>\<close>

definition padStart2 :: "string \<Rightarrow> string" where
  "padStart2 s = replicate (2 - length s) CHR ''0'' @ s"

definition formatDate :: "jsdate \<Rightarrow> string" where
  "formatDate date =
     (case date of
        None \<Rightarrow> ''NaN-NaN-NaN''
      | Some z \<Rightarrow>
          (case civil_from_days z of
             (y, m, d) \<Rightarrow>
               string_of_int y @ ''-'' @ padStart2 (string_of_int m) @ ''-''
                 @ padStart2 (string_of_int d)))"

text \<open>\<^verbatim>\<open>s.split(sep)\<close> for a one-character separator.\<close>

fun split_on :: "char \<Rightarrow> string \<Rightarrow> string list" where
  "split_on sep [] = [[]]"
| "split_on sep (c # cs) =
     (if c = sep then [] # split_on sep cs
      else (case split_on sep cs of
              [] \<Rightarrow> [[c]]
            | w # ws \<Rightarrow> (c # w) # ws))"

definition is_digit :: "char \<Rightarrow> bool" where
  "is_digit c = (48 \<le> (of_char c :: nat) \<and> (of_char c :: nat) \<le> 57)"

definition digits_value :: "string \<Rightarrow> nat" where
  "digits_value s = foldl (\<lambda>acc c. 10 * acc + (of_char c - 48)) 0 s"

text \<open>
  \<^verbatim>\<open>Number(field)\<close> on a field of a split date string: a run of decimal digits is
  its value and the empty field is 0. Every other field counts as NaN (\<open>None\<close>);
  JavaScript also reads blanks, signs, exponents and radix prefixes, which no string
  built by formatDate contains.
\<close>

definition NumberOfField :: "string \<Rightarrow> int option" where
  "NumberOfField s =
     (if list_all is_digit s then Some (int (digits_value s)) else None)"

text \<open>
  parseIsoDate destructures the first three fields; a missing one is undefined, and
  any NaN argument makes \<^verbatim>\<open>Date.UTC\<close> yield NaN.
\<close>

definition field_number :: "int option list \<Rightarrow> nat \<Rightarrow> int option" where
  "field_number parts i = (if i < length parts then parts ! i else None)"

definition parseIsoDate :: "string \<Rightarrow> jsdate" where
  "parseIsoDate v =
     (let parts = map NumberOfField (split_on CHR ''-'' v)
      in case field_number parts 0 of
           None \<Rightarrow> None
         | Some year \<Rightarrow>
             (case field_number parts 1 of
                None \<Rightarrow> None
              | Some month \<Rightarrow>
                  (case field_number parts 2 of
                     None \<Rightarrow> None
                   | Some day \<Rightarrow> DateUTC year (month - 1) day)))"

text \<open>\<^verbatim>\<open>Array.from({ length: days }, (_, index) => formatDate(addDays(start, index)))\<close>;
  an undefined length gives the empty array.\<close>

definition buildDateList :: "string \<Rightarrow> nat option \<Rightarrow> string list" where
  "buildDateList startDate days =
     (let start = parseIsoDate startDate
      in map (\<lambda>index. formatDate (addDays start (Some (int index))))
           [0 ..< (case days of None \<Rightarrow> 0 | Some n \<Rightarrow> n)])"

section \<open>Windows and date ranges\<close>

text \<open>
  A window key is a string at run time. \<^verbatim>\<open>WINDOW_DAYS[windowKey]\<close> is undefined
  for a key the table does not list.
\<close>

type_synonym DashboardWindow = string

definition WINDOW_DAYS :: "DashboardWindow \<Rightarrow> nat option" where
  "WINDOW_DAYS = map_of [(''d1'', 1), (''d7'', 7), (''d28'', 28)]"

record DateRange =
  startDate :: string
  endDate :: string

record DateRanges =
  range_current :: DateRange
  range_previous :: DateRange

text \<open>\<^verbatim>\<open>-(days - 1)\<close>, NaN when \<^verbatim>\<open>days\<close> is undefined.\<close>

definition back_span :: "nat option \<Rightarrow> int option" where
  "back_span days = (case days of None \<Rightarrow> None | Some n \<Rightarrow> Some (- (int n - 1)))"

text \<open>
  getDateRanges reads the clock; \<open>nowDay\<close> is the UTC day number of \<^verbatim>\<open>new Date()\<close>.
\<close>

definition getDateRanges :: "DashboardWindow \<Rightarrow> int \<Rightarrow> DateRanges" where
  "getDateRanges windowKey nowDay =
     (let days = WINDOW_DAYS windowKey;
          todayUtc = (case civil_from_days nowDay of (y, m, d) \<Rightarrow> DateUTC y (m - 1) d);
          currentEnd = addDays todayUtc (Some (- 1));
          currentStart = addDays currentEnd (back_span days);
          previousEnd = addDays currentStart (Some (- 1));
          previousStart = addDays previousEnd (back_span days)
      in \<lparr>range_current =
            \<lparr>startDate = formatDate currentStart, endDate = formatDate currentEnd\<rparr>,
          range_previous =
            \<lparr>startDate = formatDate previousStart, endDate = formatDate previousEnd\<rparr>\<rparr>)"

text \<open>
  The window key each route hands on: the \<^verbatim>\<open>window\<close> query parameter if it is one
  of the route's \<^verbatim>\<open>WINDOW_VALUES\<close>, else \<^verbatim>\<open>"d7"\<close>.
\<close>

definition DASHBOARD_WINDOW_VALUES :: "DashboardWindow list" where
  "DASHBOARD_WINDOW_VALUES = [''d1'', ''d7'', ''d28'']"

definition DETAIL_WINDOW_VALUES :: "DashboardWindow list" where
  "DETAIL_WINDOW_VALUES = [''d1'', ''d7'', ''d28'', ''d90'', ''d180'', ''d365'']"

definition dashboardWindowKey :: "string option \<Rightarrow> DashboardWindow" where
  "dashboardWindowKey param =
     (let windowParam = (case param of None \<Rightarrow> ''d7'' | Some v \<Rightarrow> v)
      in if windowParam \<in> set DASHBOARD_WINDOW_VALUES then windowParam else ''d7'')"

definition detailWindowKey :: "string option \<Rightarrow> DashboardWindow" where
  "detailWindowKey param =
     (let windowParam = (case param of None \<Rightarrow> ''d7'' | Some v \<Rightarrow> v)
      in if windowParam \<in> set DETAIL_WINDOW_VALUES then windowParam else ''d7'')"

section \<open>Strings: domains, date dimensions, id lists\<close>

text \<open>
  Strings are ASCII character lists: \<^verbatim>\<open>toLowerCase\<close> folds \<open>A\<close> to \<open>Z\<close> and
  \<^verbatim>\<open>trim\<close> removes the ASCII blanks.
\<close>

definition lower_char :: "char \<Rightarrow> char" where
  "lower_char c =
     (case map_of (zip ''ABCDEFGHIJKLMNOPQRSTUVWXYZ'' ''abcdefghijklmnopqrstuvwxyz'') c of
        Some l \<Rightarrow> l
      | None \<Rightarrow> c)"

definition toLowerCase :: "string \<Rightarrow> string" where
  "toLowerCase s = map lower_char s"

definition starts_with :: "string \<Rightarrow> string \<Rightarrow> bool" where
  "starts_with pre s = (take (length pre) s = pre)"

text \<open>\<^verbatim>\<open>value.replace(/^https?:\/\//, "").replace(/\/$/, "").toLowerCase()\<close>\<close>

definition normalizeUri :: "string \<Rightarrow> string" where
  "normalizeUri v =
     (let a = (if starts_with ''https://'' v then drop 8 v
               else if starts_with ''http://'' v then drop 7 v
               else v);
          b = (if a \<noteq> [] \<and> last a = CHR ''/'' then butlast a else a)
      in toLowerCase b)"

definition parseDateDimension :: "string \<Rightarrow> string" where
  "parseDateDimension v =
     (if \<not> (length v = 8 \<and> list_all is_digit v) then v
      else take 4 v @ ''-'' @ take 2 (drop 4 v) @ ''-'' @ take 2 (drop 6 v))"

definition is_blank :: "char \<Rightarrow> bool" where
  "is_blank c = ((of_char c :: nat) \<in> {9, 10, 11, 12, 13, 32})"

definition trim :: "string \<Rightarrow> string" where
  "trim s = rev (dropWhile is_blank (rev (dropWhile is_blank s)))"

text \<open>\<^verbatim>\<open>raw.split(",").map((value) => value.trim()).filter(Boolean)\<close>\<close>

definition id_list :: "string \<Rightarrow> string list" where
  "id_list raw = filter (\<lambda>v. v \<noteq> []) (map trim (split_on CHR '','' raw))"

record env =
  GA_PROPERTY_ALLOWLIST :: "string option"
  GA_PROPERTY_BLOCKLIST :: "string option"

definition DEFAULT_BLOCKLIST :: "string list" where
  "DEFAULT_BLOCKLIST = [''508295014'']"

text \<open>The id sets are kept as lists and only ever tested for membership.\<close>

definition getAllowlist :: "env \<Rightarrow> string list option" where
  "getAllowlist e =
     (case GA_PROPERTY_ALLOWLIST e of
        None \<Rightarrow> None
      | Some raw \<Rightarrow>
          (if raw = [] then None
           else (let ids = id_list raw in if ids \<noteq> [] then Some ids else None)))"

definition getBlocklist :: "env \<Rightarrow> string list" where
  "getBlocklist e =
     (case GA_PROPERTY_BLOCKLIST e of
        None \<Rightarrow> DEFAULT_BLOCKLIST
      | Some raw \<Rightarrow>
          (if raw = [] then DEFAULT_BLOCKLIST else DEFAULT_BLOCKLIST @ id_list raw))"

section \<open>Properties and web streams\<close>

text \<open>
  \<^verbatim>\<open>PropertySummary\<close>, \<^verbatim>\<open>PropertyDetail\<close> and \<^verbatim>\<open>DashboardProperty\<close> share their
  leading fields, so each record extends the one before. The \<^verbatim>\<open>emoji\<close> field of the
  type declarations is never written by the module and is left out. Where two unrelated
  types use one field name, the later record carries a prefix.
\<close>

record PropertySummary =
  propertyId :: string
  displayName :: string

record PropertyDetail = PropertySummary +
  defaultUri :: "string option"

record DashboardProperty = PropertyDetail +
  newUsers :: "NewUsersDelta option"
  error :: "string option"

record WebStreamData =
  raw_defaultUri :: "string option"
  raw_measurementId :: "string option"

record DataStream =
  stream_type :: "string option"
  webStreamData :: "WebStreamData option"

record WebStreamInfo =
  ws_defaultUri :: "string option"
  ws_measurementId :: "string option"

record PropertyResponse =
  resource_displayName :: "string option"

text \<open>\<^verbatim>\<open>stream.webStreamData?.defaultUri\<close>\<close>

definition stream_uri :: "DataStream \<Rightarrow> string option" where
  "stream_uri stream =
     (case webStreamData stream of None \<Rightarrow> None | Some d \<Rightarrow> raw_defaultUri d)"

definition stream_measurement :: "DataStream \<Rightarrow> string option" where
  "stream_measurement stream =
     (case webStreamData stream of None \<Rightarrow> None | Some d \<Rightarrow> raw_measurementId d)"

text \<open>A string is truthy when it is present and not empty.\<close>

definition truthy :: "string option \<Rightarrow> bool" where
  "truthy v = (case v of None \<Rightarrow> False | Some s \<Rightarrow> s \<noteq> [])"

definition pickWebStream :: "DataStream list \<Rightarrow> WebStreamInfo option" where
  "pickWebStream streams =
     (let webStreams =
            filter (\<lambda>stream. stream_type stream = Some ''WEB_DATA_STREAM''
                              \<or> webStreamData stream \<noteq> None) streams
      in if webStreams = [] then None
         else
           (let preferred =
                  (case find (\<lambda>stream. truthy (stream_uri stream)) webStreams of
                     Some stream \<Rightarrow> stream
                   | None \<Rightarrow> hd webStreams)
            in Some \<lparr>ws_defaultUri = stream_uri preferred,
                      ws_measurementId = stream_measurement preferred\<rparr>))"

section \<open>Series mode\<close>

record SeriesRow =
  date :: string
  "value" :: int

record PropertySeriesPoint =
  pt_date :: string
  pt_current :: int
  pt_previous :: int

record Series =
  series :: "PropertySeriesPoint list"
  currentTotal :: int
  previousTotal :: int

text \<open>The mapping fetchNewUsersSeries applies to the rows of its response.\<close>

definition seriesRowsOfResponse :: "RunReportResponse \<Rightarrow> SeriesRow list" where
  "seriesRowsOfResponse data =
     map (\<lambda>row.
            \<lparr>date = parseDateDimension (case row_label row of None \<Rightarrow> [] | Some v \<Rightarrow> v),
             value = metric_number (opt_nth (metricValues row) 0)\<rparr>)
       (response_rows data)"

definition fetchNewUsersSeries :: "thrown + RunReportResponse \<Rightarrow> thrown + SeriesRow list" where
  "fetchNewUsersSeries fetched =
     (case fetched of Inl e \<Rightarrow> Inl e | Inr data \<Rightarrow> Inr (seriesRowsOfResponse data))"

text \<open>
  \<^verbatim>\<open>new Map(rows.map((row) => [row.date, row.value]))\<close>: a later row with the same
  date replaces an earlier one.
\<close>

definition rowMap :: "SeriesRow list \<Rightarrow> string \<rightharpoonup> int" where
  "rowMap rs = map_of (rev (map (\<lambda>row. (date row, value row)) rs))"

text \<open>\<^verbatim>\<open>m.get(key) ?? 0\<close>\<close>

definition get_or_zero :: "(string \<rightharpoonup> int) \<Rightarrow> string \<Rightarrow> int" where
  "get_or_zero m k = (case m k of None \<Rightarrow> 0 | Some v \<Rightarrow> v)"

text \<open>
  buildSeries. \<^verbatim>\<open>previousDates[index]\<close> beyond the end of the list is undefined, a key
  no row has.
\<close>

definition buildSeries ::
  "DateRange \<Rightarrow> DateRange \<Rightarrow> SeriesRow list \<Rightarrow> SeriesRow list \<Rightarrow> nat option \<Rightarrow> Series" where
  "buildSeries currentRange previousRange currentRows previousRows days =
     (let currentDates = buildDateList (startDate currentRange) days;
          previousDates = buildDateList (startDate previousRange) days;
          currentMap = rowMap currentRows;
          previousMap = rowMap previousRows;
          points =
            map (\<lambda>(d, index).
                   \<lparr>pt_date = d,
                    pt_current = get_or_zero currentMap d,
                    pt_previous =
                      (if index < length previousDates
                       then get_or_zero previousMap (previousDates ! index) else 0)\<rparr>)
              (zip currentDates [0 ..< length currentDates])
      in \<lparr>series = points,
          currentTotal = foldl (\<lambda>sum point. sum + pt_current point) 0 points,
          previousTotal = foldl (\<lambda>sum point. sum + pt_previous point) 0 points\<rparr>)"

section \<open>Bounded fan-out\<close>

text \<open>
  runLimited starts \<open>min limit (length items)\<close> runners. A runner takes the shared
  cursor, advances it, and either stops (cursor past the end) or calls the worker and
  suspends at the \<^verbatim>\<open>await\<close>. A suspended runner holds the index it took and what its
  worker call settles to. Between two suspensions a runner is not interrupted, so one
  step of the pool is one worker call settling: the runner stores the result in its
  slot and goes round the loop again. Which suspended runner settles next is not
  determined.
\<close>

datatype 'r runner = Awaiting nat "thrown + 'r" | Finished

record 'r pool =
  nextIndex :: nat
  results :: "'r option list"
  runners :: "'r runner list"

text \<open>
  From the top of the \<^verbatim>\<open>while (true)\<close> body to the \<^verbatim>\<open>break\<close> or the
  \<^verbatim>\<open>await\<close>, for the cursor value just read.
\<close>

definition loop_head ::
  "'a list \<Rightarrow> ('a \<Rightarrow> nat \<Rightarrow> thrown + 'r) \<Rightarrow> nat \<Rightarrow> 'r runner" where
  "loop_head items worker currentIndex =
     (if length items \<le> currentIndex then Finished
      else Awaiting currentIndex (worker (items ! currentIndex) currentIndex))"

text \<open>\<^verbatim>\<open>Array.from\<close> calls the runner bodies one after the other.\<close>

definition launch ::
  "'a list \<Rightarrow> nat \<Rightarrow> ('a \<Rightarrow> nat \<Rightarrow> thrown + 'r) \<Rightarrow> 'r pool" where
  "launch items limit worker =
     foldl (\<lambda>p _. p\<lparr>nextIndex := nextIndex p + 1,
                     runners := runners p @ [loop_head items worker (nextIndex p)]\<rparr>)
       \<lparr>nextIndex = 0, results = replicate (length items) None, runners = []\<rparr>
       [0 ..< min limit (length items)]"

text \<open>Runner \<open>j\<close>, suspended on index \<open>i\<close>, is resumed with the value \<open>v\<close>.\<close>

definition resume ::
  "'a list \<Rightarrow> ('a \<Rightarrow> nat \<Rightarrow> thrown + 'r) \<Rightarrow> nat \<Rightarrow> nat \<Rightarrow> 'r \<Rightarrow> 'r pool \<Rightarrow> 'r pool" where
  "resume items worker j i v p =
     p\<lparr>results := (results p)[i := Some v],
       nextIndex := nextIndex p + 1,
       runners := (runners p)[j := loop_head items worker (nextIndex p)]\<rparr>"

inductive step ::
  "'a list \<Rightarrow> ('a \<Rightarrow> nat \<Rightarrow> thrown + 'r) \<Rightarrow> 'r pool \<Rightarrow> 'r pool \<Rightarrow> bool"
  for items worker where
  settle: "j < length (runners p) \<Longrightarrow> runners p ! j = Awaiting i (Inr v) \<Longrightarrow>
           step items worker p (resume items worker j i v p)"

definition finished :: "'r pool \<Rightarrow> bool" where
  "finished p = list_all (\<lambda>r. r = Finished) (runners p)"

definition in_flight :: "'r pool \<Rightarrow> nat" where
  "in_flight p = length (filter (\<lambda>r. r \<noteq> Finished) (runners p))"

text \<open>
  \<^verbatim>\<open>await Promise.all(runners)\<close>: the call returns the results once every runner has
  finished, and throws as soon as one worker call rejects.
\<close>

definition outcome ::
  "'a list \<Rightarrow> ('a \<Rightarrow> nat \<Rightarrow> thrown + 'r) \<Rightarrow> 'r pool \<Rightarrow> thrown + 'r option list \<Rightarrow> bool" where
  "outcome items worker p out =
     (\<exists>q. (step items worker)\<^sup>*\<^sup>* p q \<and>
          ((finished q \<and> out = Inr (results q)) \<or>
           (\<exists>j i e. j < length (runners q) \<and> runners q ! j = Awaiting i (Inl e)
                    \<and> out = Inl e)))"

text \<open>One schedule, for running the pool: the lowest suspended runner settles first.\<close>

fun first_awaiting :: "'r runner list \<Rightarrow> (nat \<times> nat \<times> (thrown + 'r)) option" where
  "first_awaiting [] = None"
| "first_awaiting (Awaiting i res # rs) = Some (0, i, res)"
| "first_awaiting (Finished # rs) =
     (case first_awaiting rs of None \<Rightarrow> None | Some (j, x) \<Rightarrow> Some (Suc j, x))"

function drain ::
  "'a list \<Rightarrow> ('a \<Rightarrow> nat \<Rightarrow> thrown + 'r) \<Rightarrow> 'r pool \<Rightarrow> thrown + 'r option list" where
  "drain items worker p =
     (case first_awaiting (runners p) of
        None \<Rightarrow> Inr (results p)
      | Some (j, i, Inl e) \<Rightarrow> Inl e
      | Some (j, i, Inr v) \<Rightarrow> drain items worker (resume items worker j i v p))"
  by pat_completeness auto

lemma first_awaiting_Some:
  "first_awaiting rs = Some (j, i, res) \<Longrightarrow> j < length rs \<and> rs ! j = Awaiting i res"
  by (induction rs arbitrary: j rule: first_awaiting.induct) (auto split: option.splits)

lemma in_flight_update:
  "j < length rs \<Longrightarrow> rs ! j \<noteq> Finished \<Longrightarrow>
   length (filter (\<lambda>r. r \<noteq> Finished) (rs[j := r'])) =
     (if r' = Finished then length (filter (\<lambda>r. r \<noteq> Finished) rs) - 1
      else length (filter (\<lambda>r. r \<noteq> Finished) rs))
   \<and> 0 < length (filter (\<lambda>r. r \<noteq> Finished) rs)"
  by (induction rs arbitrary: j) (auto simp: nth_Cons split: nat.splits)

text \<open>
  Every step advances the cursor; once the cursor is past the end, every step retires
  a runner. So the pool always runs to the end.
\<close>

termination drain
proof (relation "measure (\<lambda>(items, worker, p). (length items - nextIndex p) + in_flight p)",
    goal_cases)
  case 1
  show ?case by simp
next
  case (2 items worker p x2 j y i res v)
  then have fa: "first_awaiting (runners p) = Some (j, i, Inr v)"
    by simp
  from first_awaiting_Some [OF fa]
  have j: "j < length (runners p)" "runners p ! j = Awaiting i (Inr v)"
    by auto
  then have nf: "runners p ! j \<noteq> Finished"
    by simp
  show ?case
    using in_flight_update [OF j(1) nf, of "loop_head items worker (nextIndex p)"]
    by (auto simp: resume_def in_flight_def loop_head_def)
qed

declare drain.simps [simp del]

definition runLimited ::
  "'a list \<Rightarrow> nat \<Rightarrow> ('a \<Rightarrow> nat \<Rightarrow> thrown + 'r) \<Rightarrow> thrown + 'r option list" where
  "runLimited items limit worker = drain items worker (launch items limit worker)"

section \<open>The remote services\<close>

text \<open>
  What the awaited calls settle to is a parameter: the token exchange, the two listings
  (all pages gathered), the property resource and the report endpoint, each either
  throwing or returning. Within one request a call with the same arguments settles the
  same way. Every call is taken to settle.
\<close>

datatype report_body =
  SummaryBody DateRange DateRange
| SeriesBody DateRange

record remote =
  getAccessToken :: "thrown + string"
  listPropertySummaries :: "string \<Rightarrow> thrown + PropertySummary list"
  listDataStreams :: "string \<Rightarrow> string \<Rightarrow> thrown + DataStream list"
  fetchProperty :: "string \<Rightarrow> string \<Rightarrow> thrown + PropertyResponse"
  runReport :: "string \<Rightarrow> string \<Rightarrow> report_body \<Rightarrow> thrown + RunReportResponse"

text \<open>The remote operations a request starts, listed by fan-out stage and item index.\<close>

datatype call =
  CallGetAccessToken
| CallListPropertySummaries
| CallListDataStreams string
| CallFetchProperty string
| CallRunReport string report_body

record clock =
  nowDay :: int
  nowIso :: string

section \<open>The dashboard\<close>

record StreamResult =
  sr_summary :: PropertySummary
  sr_webStream :: "WebStreamInfo option"
  sr_error :: "string option"

record DashboardResponse =
  updatedAt :: string
  window :: DashboardWindow
  properties :: "DashboardProperty list"

text \<open>The worker of the first fan-out; it catches everything, so it never rejects.\<close>

definition streamWorker :: "remote \<Rightarrow> string \<Rightarrow> PropertySummary \<Rightarrow> StreamResult option" where
  "streamWorker r token summary =
     (case listDataStreams r token (propertyId summary) of
        Inr streams \<Rightarrow>
          (case pickWebStream streams of
             None \<Rightarrow> None
           | Some webStream \<Rightarrow>
               Some \<lparr>sr_summary = summary, sr_webStream = Some webStream, sr_error = None\<rparr>)
      | Inl e \<Rightarrow>
          Some \<lparr>sr_summary = summary, sr_webStream = None,
                sr_error = Some (withErrorMessage e)\<rparr>)"

text \<open>\<^verbatim>\<open>result.webStream?.defaultUri ?? null\<close>\<close>

definition result_uri :: "StreamResult \<Rightarrow> string option" where
  "result_uri result =
     (case sr_webStream result of None \<Rightarrow> None | Some w \<Rightarrow> ws_defaultUri w)"

text \<open>
  The loop over the stream results: an empty slot or a null is skipped, a result with
  a message becomes an error row, every other result is a report target.
\<close>

definition errorRowOf :: "StreamResult \<Rightarrow> DashboardProperty" where
  "errorRowOf result =
     \<lparr>propertyId = propertyId (sr_summary result),
      displayName = displayName (sr_summary result),
      defaultUri = None, newUsers = None, error = sr_error result\<rparr>"

definition partition_step ::
  "DashboardProperty list \<times> StreamResult list \<Rightarrow> StreamResult option option
     \<Rightarrow> DashboardProperty list \<times> StreamResult list" where
  "partition_step acc slot =
     (case slot of
        None \<Rightarrow> acc
      | Some None \<Rightarrow> acc
      | Some (Some result) \<Rightarrow>
          (if truthy (sr_error result) then (fst acc @ [errorRowOf result], snd acc)
           else (fst acc, snd acc @ [result])))"

definition partitionResults ::
  "StreamResult option option list \<Rightarrow> DashboardProperty list \<times> StreamResult list" where
  "partitionResults streamResults = foldl partition_step ([], []) streamResults"

text \<open>The worker of the second fan-out; it catches everything too.\<close>

definition reportWorker ::
  "remote \<Rightarrow> string \<Rightarrow> DateRanges \<Rightarrow> StreamResult \<Rightarrow> DashboardProperty" where
  "reportWorker r token ranges result =
     (case fetchNewUsers
             (runReport r token (propertyId (sr_summary result))
                (SummaryBody (range_current ranges) (range_previous ranges))) of
        Inr delta_ \<Rightarrow>
          \<lparr>propertyId = propertyId (sr_summary result),
           displayName = displayName (sr_summary result),
           defaultUri = result_uri result, newUsers = Some delta_, error = None\<rparr>
      | Inl e \<Rightarrow>
          \<lparr>propertyId = propertyId (sr_summary result),
           displayName = displayName (sr_summary result),
           defaultUri = result_uri result, newUsers = None,
           error = Some (withErrorMessage e)\<rparr>)"

text \<open>\<^verbatim>\<open>a.newUsers?.current ?? -1\<close>\<close>

definition sortValue :: "DashboardProperty \<Rightarrow> int" where
  "sortValue a = (case newUsers a of None \<Rightarrow> - 1 | Some d \<Rightarrow> current d)"

text \<open>
  \<^verbatim>\<open>sort((a, b) => bValue - aValue)\<close>: descending by sortValue; the sort is stable, so
  rows with equal values keep their order.
\<close>

definition sortProperties :: "DashboardProperty list \<Rightarrow> DashboardProperty list" where
  "sortProperties ps = sort_key (\<lambda>a. - sortValue a) ps"

text \<open>The deduplication loop; the state is the output so far and the domains seen.\<close>

definition dedupe_step ::
  "DashboardProperty list \<times> string list \<Rightarrow> DashboardProperty
     \<Rightarrow> DashboardProperty list \<times> string list" where
  "dedupe_step acc property =
     (case defaultUri property of
        None \<Rightarrow> (fst acc @ [property], snd acc)
      | Some uri \<Rightarrow>
          (if uri = [] then (fst acc @ [property], snd acc)
           else
             (let key = normalizeUri uri
              in if key \<in> set (snd acc) then acc
                 else (fst acc @ [property], key # snd acc))))"

definition dedupeProperties :: "DashboardProperty list \<Rightarrow> DashboardProperty list" where
  "dedupeProperties ps = fst (foldl dedupe_step ([], []) ps)"

text \<open>
  getDashboardData, with the calls it starts. Both workers return normally, so the
  fan-outs are given workers that always resolve. A report slot left empty would be
  read as undefined and make the deduplication loop throw a TypeError.
\<close>

definition filterSummaries :: "env \<Rightarrow> PropertySummary list \<Rightarrow> PropertySummary list" where
  "filterSummaries e summaries =
     (let allowlist = getAllowlist e;
          blocklist = getBlocklist e;
          filteredSummaries =
            (case allowlist of
               Some ids \<Rightarrow> filter (\<lambda>summary. propertyId summary \<in> set ids) summaries
             | None \<Rightarrow> summaries)
      in filter (\<lambda>summary. propertyId summary \<notin> set blocklist) filteredSummaries)"

definition summaryBody :: "DateRanges \<Rightarrow> report_body" where
  "summaryBody ranges = SummaryBody (range_current ranges) (range_previous ranges)"

definition getDashboardData ::
  "env \<Rightarrow> remote \<Rightarrow> clock \<Rightarrow> DashboardWindow \<Rightarrow> call list \<times> (thrown + DashboardResponse)" where
  "getDashboardData e r c windowKey =
     (case getAccessToken r of
        Inl err \<Rightarrow> ([CallGetAccessToken], Inl err)
      | Inr token \<Rightarrow>
          (let ranges = getDateRanges windowKey (nowDay c)
           in case listPropertySummaries r token of
                Inl err \<Rightarrow> ([CallGetAccessToken, CallListPropertySummaries], Inl err)
              | Inr summaries \<Rightarrow>
                  (let filteredSummaries = filterSummaries e summaries;
                       calls1 = [CallGetAccessToken, CallListPropertySummaries]
                         @ map (\<lambda>summary. CallListDataStreams (propertyId summary))
                             filteredSummaries
                   in case runLimited filteredSummaries 5
                             (\<lambda>summary _. Inr (streamWorker r token summary)) of
                        Inl err \<Rightarrow> (calls1, Inl err)
                      | Inr streamResults \<Rightarrow>
                          (let parts = partitionResults streamResults;
                               errorRows = fst parts;
                               reportTargets = snd parts;
                               calls2 = calls1
                                 @ map (\<lambda>result.
                                          CallRunReport (propertyId (sr_summary result))
                                            (summaryBody ranges))
                                     reportTargets
                           in case runLimited reportTargets 5
                                     (\<lambda>result _.
                                        Inr (reportWorker r token ranges result)) of
                                Inl err \<Rightarrow> (calls2, Inl err)
                              | Inr reportRows \<Rightarrow>
                                  (if \<not> list_all (\<lambda>slot. slot \<noteq> None) reportRows
                                   then (calls2,
                                         Inl (ErrorObject
                                                ''Cannot read properties of undefined''))
                                   else
                                     (let sortedProperties =
                                            sortProperties (map the reportRows @ errorRows)
                                      in (calls2,
                                          Inr \<lparr>updatedAt = nowIso c,
                                               window = windowKey,
                                               properties =
                                                 dedupeProperties sortedProperties\<rparr>)))))))"

section \<open>The property detail\<close>

record PropertyDetailResponse =
  pd_updatedAt :: string
  pd_window :: DashboardWindow
  pd_property :: PropertyDetail
  pd_summary :: "NewUsersDelta option"
  pd_series :: "PropertySeriesPoint list"
  pd_error :: "string option"

text \<open>The response shape every failing branch of getPropertyDetail returns.\<close>

definition errorDetail ::
  "string \<Rightarrow> DashboardWindow \<Rightarrow> PropertyDetail \<Rightarrow> string \<Rightarrow> PropertyDetailResponse" where
  "errorDetail stamp windowKey property message =
     \<lparr>pd_updatedAt = stamp, pd_window = windowKey, pd_property = property,
      pd_summary = None, pd_series = [], pd_error = Some message\<rparr>"

definition getPropertyMetadata :: "remote \<Rightarrow> string \<Rightarrow> string \<Rightarrow> thrown + PropertyDetail" where
  "getPropertyMetadata r token pid =
     (case fetchProperty r token pid of
        Inl err \<Rightarrow> Inl err
      | Inr property \<Rightarrow>
          (case listDataStreams r token pid of
             Inl err \<Rightarrow> Inl err
           | Inr streams \<Rightarrow>
               (let webStream = pickWebStream streams
                in Inr \<lparr>propertyId = pid,
                        displayName =
                          (case resource_displayName property of None \<Rightarrow> pid | Some n \<Rightarrow> n),
                        defaultUri =
                          (case webStream of None \<Rightarrow> None | Some w \<Rightarrow> ws_defaultUri w)\<rparr>)))"

definition metadataCalls :: "remote \<Rightarrow> string \<Rightarrow> string \<Rightarrow> call list" where
  "metadataCalls r token pid =
     (case fetchProperty r token pid of
        Inl err \<Rightarrow> [CallFetchProperty pid]
      | Inr property \<Rightarrow> [CallFetchProperty pid, CallListDataStreams pid])"

text \<open>
  The summary getPropertyDetail builds from the totals of the series.
\<close>

definition summaryOfSeries :: "Series \<Rightarrow> NewUsersDelta" where
  "summaryOfSeries built =
     (let d = currentTotal built - previousTotal built
      in \<lparr>current = currentTotal built, previous = previousTotal built, delta = d,
          pct = (if previousTotal built = 0 then None
                 else Some (of_int d / of_int (previousTotal built)))\<rparr>)"

text \<open>
  getPropertyDetail, with the calls it starts. \<^verbatim>\<open>Promise.all\<close> starts both series
  requests; when both reject, the message of the one that rejects first is reported,
  which the model takes to be the current-range one.
\<close>

definition getPropertyDetail ::
  "env \<Rightarrow> remote \<Rightarrow> clock \<Rightarrow> string \<Rightarrow> DashboardWindow
     \<Rightarrow> call list \<times> (thrown + PropertyDetailResponse)" where
  "getPropertyDetail e r c pid windowKey =
     (let allowlist = getAllowlist e;
          blocklist = getBlocklist e;
          stamp = nowIso c;
          fallbackProperty = \<lparr>propertyId = pid, displayName = pid, defaultUri = None\<rparr>
      in if pid \<in> set blocklist
         then ([], Inr (errorDetail stamp windowKey fallbackProperty
                          ''Property is excluded from the dashboard.''))
         else if (case allowlist of None \<Rightarrow> False | Some ids \<Rightarrow> pid \<notin> set ids)
         then ([], Inr (errorDetail stamp windowKey fallbackProperty
                          ''Property is not included in GA_PROPERTY_ALLOWLIST.''))
         else
           (case getAccessToken r of
              Inl err \<Rightarrow> ([CallGetAccessToken], Inl err)
            | Inr token \<Rightarrow>
                (let ranges = getDateRanges windowKey (nowDay c);
                     days = WINDOW_DAYS windowKey;
                     calls1 = CallGetAccessToken # metadataCalls r token pid
                 in case getPropertyMetadata r token pid of
                      Inl err \<Rightarrow>
                        (calls1,
                         Inr (errorDetail stamp windowKey fallbackProperty
                                (withErrorMessage err)))
                    | Inr property \<Rightarrow>
                        (let calls2 = calls1
                               @ [CallRunReport pid (SeriesBody (range_current ranges)),
                                  CallRunReport pid (SeriesBody (range_previous ranges))]
                         in case fetchNewUsersSeries
                                   (runReport r token pid
                                      (SeriesBody (range_current ranges))) of
                              Inl err \<Rightarrow>
                                (calls2,
                                 Inr (errorDetail stamp windowKey property
                                        (withErrorMessage err)))
                            | Inr currentRows \<Rightarrow>
                                (case fetchNewUsersSeries
                                        (runReport r token pid
                                           (SeriesBody (range_previous ranges))) of
                                   Inl err \<Rightarrow>
                                     (calls2,
                                      Inr (errorDetail stamp windowKey property
                                             (withErrorMessage err)))
                                 | Inr previousRows \<Rightarrow>
                                     (let built =
                                            buildSeries (range_current ranges)
                                              (range_previous ranges) currentRows
                                              previousRows days
                                      in (calls2,
                                          Inr \<lparr>pd_updatedAt = stamp,
                                               pd_window = windowKey,
                                               pd_property = property,
                                               pd_summary = Some (summaryOfSeries built),
                                               pd_series = series built,
                                               pd_error = None\<rparr>)))))))"

section \<open>Vocabulary of the properties\<close>


text \<open>
  The counter of a date-range bucket as the policy words it: the metric of the last row
  that carries the label, and 0 when no row carries it.
\<close>

definition bucket_value :: "string \<Rightarrow> ReportRow list \<Rightarrow> int" where
  "bucket_value l rs =
     (case filter (\<lambda>row. row_label row = Some l) rs of
        [] \<Rightarrow> 0
      | ms \<Rightarrow> metric_number (opt_nth (metricValues (last ms)) 0))"

text \<open>The flattened response shape: one row, no dimension values, two metric values or more.\<close>

definition flat_row :: "ReportRow list \<Rightarrow> bool" where
  "flat_row rs =
     (length rs = 1 \<and> opt_length (dimensionValues (hd rs)) = 0
      \<and> 2 \<le> opt_length (metricValues (hd rs)))"

text \<open>
  The value a list of daily rows records for a date: that of the last row so dated, and
  0 when no row has the date.
\<close>

definition recorded_value :: "SeriesRow list \<Rightarrow> string \<Rightarrow> int" where
  "recorded_value rs d =
     (case filter (\<lambda>row. date row = d) rs of [] \<Rightarrow> 0 | ms \<Rightarrow> value (last ms))"

text \<open>
  The summary report over the same raw rows as two series reports: one row per bucket,
  labelled with the bucket and carrying the sum of the daily values of its range.
\<close>

definition aggregateResponse :: "SeriesRow list \<Rightarrow> SeriesRow list \<Rightarrow> RunReportResponse" where
  "aggregateResponse currentRows previousRows =
     \<lparr>rows = Some
        [\<lparr>dimensionValues = Some [Some ''date_range_0''],
          metricValues = Some [Some (sum_list (map value currentRows))]\<rparr>,
         \<lparr>dimensionValues = Some [Some ''date_range_1''],
          metricValues = Some [Some (sum_list (map value previousRows))]\<rparr>]\<rparr>"

text \<open>
  What holds of the pool whenever no runner is in the middle of a step: a suspended
  runner holds an index of the list, below the cursor, and the outcome of the worker
  call on it; every index below the cursor has its result stored or its runner still
  suspended; and a runner has only stopped if the cursor had reached the end.
\<close>

definition pool_inv ::
  "'a list \<Rightarrow> ('a \<Rightarrow> nat \<Rightarrow> thrown + 'r) \<Rightarrow> nat \<Rightarrow> 'r pool \<Rightarrow> bool" where
  "pool_inv items worker k p =
     (length (results p) = length items \<and> length (runners p) = k
      \<and> (\<forall>j<k. \<forall>i res. runners p ! j = Awaiting i res \<longrightarrow>
             i < length items \<and> i < nextIndex p \<and> res = worker (items ! i) i)
      \<and> (\<forall>i<length items. i < nextIndex p \<longrightarrow>
             (\<exists>v. worker (items ! i) i = Inr v \<and> results p ! i = Some v)
             \<or> (\<exists>j<k. \<exists>res. runners p ! j = Awaiting i res))
      \<and> (\<forall>j<k. runners p ! j = Finished \<longrightarrow> length items \<le> nextIndex p))"

text \<open>
  The stages of one dashboard run, for the filtered summaries: the stream results that
  are not null, in input order; those without a message, which the second fan-out runs
  over; the error rows of the others; and the rows that are merged and sorted.
\<close>

definition presentResults :: "remote \<Rightarrow> string \<Rightarrow> PropertySummary list \<Rightarrow> StreamResult list" where
  "presentResults r token filtered = List.map_filter (streamWorker r token) filtered"

definition reportTargetsOf :: "remote \<Rightarrow> string \<Rightarrow> PropertySummary list \<Rightarrow> StreamResult list" where
  "reportTargetsOf r token filtered =
     filter (\<lambda>result. \<not> truthy (sr_error result)) (presentResults r token filtered)"

definition errorRowsOf ::
  "remote \<Rightarrow> string \<Rightarrow> PropertySummary list \<Rightarrow> DashboardProperty list" where
  "errorRowsOf r token filtered =
     map errorRowOf (filter (\<lambda>result. truthy (sr_error result)) (presentResults r token filtered))"

definition mergedRows ::
  "remote \<Rightarrow> string \<Rightarrow> DateRanges \<Rightarrow> PropertySummary list \<Rightarrow> DashboardProperty list" where
  "mergedRows r token ranges filtered =
     map (reportWorker r token ranges) (reportTargetsOf r token filtered)
       @ errorRowsOf r token filtered"

text \<open>
  The key a row is deduplicated by: the normalized domain of its defaultUri, and none
  when the defaultUri is null or empty.
\<close>

definition domain_key :: "DashboardProperty \<Rightarrow> string option" where
  "domain_key row =
     (case defaultUri row of
        None \<Rightarrow> None
      | Some uri \<Rightarrow> (if uri = [] then None else Some (normalizeUri uri)))"

text \<open>Position \<open>i\<close> of a list of rows is the first with its key, or has no key.\<close>

definition kept_at :: "DashboardProperty list \<Rightarrow> nat \<Rightarrow> bool" where
  "kept_at xs i =
     (domain_key (xs ! i) = None \<or> (\<forall>j<i. domain_key (xs ! j) \<noteq> domain_key (xs ! i)))"

section \<open>Sample inputs\<close>

text \<open>A summary response with a row for each bucket and a row with a foreign label.\<close>

definition two_buckets :: RunReportResponse where
  "two_buckets = \<lparr>rows = Some
       [\<lparr>dimensionValues = Some [Some ''date_range_0''], metricValues = Some [Some 100]\<rparr>,
        \<lparr>dimensionValues = Some [Some ''(other)''], metricValues = Some [Some 7]\<rparr>,
        \<lparr>dimensionValues = Some [Some ''date_range_1''], metricValues = Some [Some 80]\<rparr>]\<rparr>"

text \<open>
  Two adjacent weeks, and a series response with one row, dated 2026-01-01, of value 30.
\<close>

definition jan_week :: DateRange where
  "jan_week = \<lparr>startDate = ''2026-01-01'', endDate = ''2026-01-07''\<rparr>"

definition dec_week :: DateRange where
  "dec_week = \<lparr>startDate = ''2025-12-25'', endDate = ''2025-12-31''\<rparr>"

definition day_one_response :: RunReportResponse where
  "day_one_response =
     \<lparr>rows = Some [\<lparr>dimensionValues = Some [Some ''20260101''],
                      metricValues = Some [Some 30]\<rparr>]\<rparr>"

text \<open>A series response with a row inside the week and a row whose date is no date.\<close>

definition stray_response :: RunReportResponse where
  "stray_response =
     \<lparr>rows = Some [\<lparr>dimensionValues = Some [Some ''20260101''],
                      metricValues = Some [Some 30]\<rparr>,
                    \<lparr>dimensionValues = Some [Some ''(other)''],
                      metricValues = Some [Some 5]\<rparr>]\<rparr>"

text \<open>
  A dashboard run: no lists configured, a clock on 2026-01-01, and a remote with five
  properties. Properties 1 and 2 have web streams for the same site; the report for 2
  fails. The stream listing of 3 fails. Property 4 has no web stream. The last id is
  the built-in excluded one.
\<close>

definition env0 :: env where
  "env0 = \<lparr>GA_PROPERTY_ALLOWLIST = None, GA_PROPERTY_BLOCKLIST = None\<rparr>"

definition clock0 :: clock where
  "clock0 = \<lparr>nowDay = 20454, nowIso = ''2026-01-01T12:00:00.000Z''\<rparr>"

definition web_stream :: "string \<Rightarrow> DataStream" where
  "web_stream uri =
     \<lparr>stream_type = Some ''WEB_DATA_STREAM'',
      webStreamData = Some \<lparr>raw_defaultUri = Some uri, raw_measurementId = None\<rparr>\<rparr>"

definition five_properties :: "PropertySummary list" where
  "five_properties =
     [\<lparr>propertyId = ''1'', displayName = ''One''\<rparr>,
      \<lparr>propertyId = ''2'', displayName = ''Two''\<rparr>,
      \<lparr>propertyId = ''3'', displayName = ''Three''\<rparr>,
      \<lparr>propertyId = ''4'', displayName = ''Four''\<rparr>,
      \<lparr>propertyId = ''508295014'', displayName = ''Hidden''\<rparr>]"

definition remote0 :: remote where
  "remote0 =
     \<lparr>getAccessToken = Inr ''token'',
      listPropertySummaries = (\<lambda>_. Inr five_properties),
      listDataStreams =
        (\<lambda>_ pid.
           if pid = ''1'' then Inr [web_stream ''https://a.com/'']
           else if pid = ''2'' then Inr [web_stream ''http://a.com'']
           else if pid = ''3'' then Inl (ErrorObject ''Google API error 500'')
           else Inr []),
      fetchProperty = (\<lambda>_ _. Inr \<lparr>resource_displayName = None\<rparr>),
      runReport =
        (\<lambda>_ pid _. if pid = ''2'' then Inl OtherThrown else Inr two_buckets)\<rparr>"

text \<open>A remote with two properties whose web streams carry an empty site address.\<close>

definition remote_blank :: remote where
  "remote_blank =
     \<lparr>getAccessToken = Inr ''token'',
      listPropertySummaries =
        (\<lambda>_. Inr [\<lparr>propertyId = ''1'', displayName = ''One''\<rparr>,
                   \<lparr>propertyId = ''2'', displayName = ''Two''\<rparr>]),
      listDataStreams = (\<lambda>_ _. Inr [web_stream []]),
      fetchProperty = (\<lambda>_ _. Inr \<lparr>resource_displayName = None\<rparr>),
      runReport = (\<lambda>_ _ _. Inr two_buckets)\<rparr>"

text \<open>Both lists configured, with the id 2 on each.\<close>

definition env_both :: env where
  "env_both = \<lparr>GA_PROPERTY_ALLOWLIST = Some ''1, 2'', GA_PROPERTY_BLOCKLIST = Some ''2''\<rparr>"


text \<open>A worker whose call on the second item rejects.\<close>

definition reject_second :: "nat \<Rightarrow> nat \<Rightarrow> thrown + nat" where
  "reject_second x i = (if i = 1 then Inl OtherThrown else Inr (x + i))"

section \<open>Calendar arithmetic\<close>

text \<open>
  The day number of a civil date is recovered from the date, so adding days through
  \<^verbatim>\<open>setUTCDate\<close> is adding to the day number, and a formatted date parses back to
  the day it was formatted from.
\<close>

lemma year_cycle:
  fixes c q a :: int
  assumes "0 \<le> c" "c \<le> 3" "0 \<le> q" "q \<le> 24" "0 \<le> a" "a \<le> 3"
  shows "(c * 100 + q * 4 + a) div 4 = c * 25 + q"
    and "(c * 100 + q * 4 + a) div 100 = c"
    and "(era * 400 + (c * 100 + q * 4 + a)) div 400 = era"
    and "(era * 400 + (c * 100 + q * 4 + a)) mod 400 = c * 100 + q * 4 + a"
proof -
  show "(c * 100 + q * 4 + a) div 4 = c * 25 + q" using assms by auto
  show "(c * 100 + q * 4 + a) div 100 = c" using assms by auto
  have r: "0 \<le> c * 100 + q * 4 + a" "c * 100 + q * 4 + a < 400" using assms by auto
  show "(era * 400 + (c * 100 + q * 4 + a)) div 400 = era"
    using r by (simp add: div_pos_pos_trivial)
  show "(era * 400 + (c * 100 + q * 4 + a)) mod 400 = c * 100 + q * 4 + a"
    using r by (simp add: mod_pos_pos_trivial)
qed

lemma civil_from_days_inverse:
  assumes "civil_from_days z = (y, m, d)"
  shows "days_from_civil y m d = z" and "1 \<le> m" and "m \<le> 12" and "1 \<le> d"
    and "- 573371 \<le> z \<Longrightarrow> 400 \<le> y"
proof -
  define s where "s = z + 719468"
  define era where "era = s div 146097"
  define doe where "doe = s mod 146097"
  define c where "c = min 3 (doe div 36524)"
  define d2 where "d2 = doe - c * 36524"
  define q where "q = d2 div 1461"
  define d3 where "d3 = d2 mod 1461"
  define a where "a = min 3 (d3 div 365)"
  define doy where "doy = d3 - a * 365"
  define mp where "mp = (5 * doy + 2) div 153"
  have doe: "0 \<le> doe" "doe \<le> 146096" by (simp_all add: doe_def) 
  have c: "0 \<le> c" "c \<le> 3" using doe by (auto simp: c_def)
  have d2: "0 \<le> d2" "d2 \<le> 36524" using doe by (auto simp: d2_def c_def min_def)
  have q: "0 \<le> q" "q \<le> 24" using d2 by (auto simp: q_def)
  have d3: "0 \<le> d3" "d3 \<le> 1460" by (simp_all add: d3_def)
  have a: "0 \<le> a" "a \<le> 3" using d3 by (auto simp: a_def)
  have doy: "0 \<le> doy" "doy \<le> 365" using d3 by (auto simp: doy_def a_def min_def)
  have mp: "0 \<le> mp" "mp \<le> 11" using doy by (auto simp: mp_def)
  have d2q: "d2 = q * 1461 + d3" by (simp add: q_def d3_def)
  have sdoe: "s = era * 146097 + doe" by (simp add: era_def doe_def)
  have "civil_from_days z =
      (if (if mp < 10 then mp + 3 else mp - 9) \<le> 2 then era * 400 + c * 100 + q * 4 + a + 1
         else era * 400 + c * 100 + q * 4 + a,
       if mp < 10 then mp + 3 else mp - 9,
       doy - (153 * mp + 2) div 5 + 1)"
    unfolding civil_from_days_def Let_def mp_def doy_def a_def d3_def q_def d2_def c_def
      doe_def era_def s_def by (rule refl)
  with assms have y: "y = (if (if mp < 10 then mp + 3 else mp - 9) \<le> 2 then era * 400 + (c * 100 + q * 4 + a) + 1 else era * 400 + (c * 100 + q * 4 + a))"
    and m: "m = (if mp < 10 then mp + 3 else mp - 9)"
    and d: "d = doy - (153 * mp + 2) div 5 + 1"
    by auto
  show "1 \<le> m" "m \<le> 12" using mp m by auto
  show "1 \<le> d" using doy by (simp add: d mp_def) linarith?
  have y': "(if m \<le> 2 then y - 1 else y) = era * 400 + (c * 100 + q * 4 + a)"
    using y m by auto
  have mp': "(if 2 < m then m - 3 else m + 9) = mp" using m mp by auto
  show "days_from_civil y m d = z"
    unfolding days_from_civil_def Let_def y' mp'
    using year_cycle(1,2) [OF c q a] year_cycle(3,4) [OF c q a, of era] d2q sdoe
    by (simp add: d doy_def d2_def s_def)
  show "400 \<le> y" if "- 573371 \<le> z"
  proof -
    from that have "146097 \<le> s" by (simp add: s_def)
    then have "1 \<le> era" unfolding era_def by linarith
    then show ?thesis using y c q a by (auto split: if_splits)
  qed
qed

lemma days_from_civil_day: "days_from_civil y m 1 + d - 1 = days_from_civil y m d"
  by (simp add: days_from_civil_def Let_def)

lemma MakeDay_civil:
  assumes "civil_from_days z = (y, m, d)"
  shows "MakeDay y (m - 1) (d + k) = z + k"
proof -
  from civil_from_days_inverse [OF assms] have m: "1 \<le> m" "m \<le> 12" and inv: "days_from_civil y m d = z"
    by auto
  have "(m - 1) div 12 = 0" "(m - 1) mod 12 = m - 1" using m by auto
  then show ?thesis using days_from_civil_day [of y m "d + k"] days_from_civil_day [of y m d] inv
    by (simp add: MakeDay_def)
qed

lemma addDays_Some: "addDays (Some z) (Some k) = TimeClip (z + k)"
  by (cases "civil_from_days z") (simp add: addDays_def MakeDay_civil)

lemma addDays_None [simp]: "addDays None k = None" "addDays d None = None"
  by (simp_all add: addDays_def split: option.splits)


lemma below_ten:
  "k < 10 \<Longrightarrow>
     k = 0 \<or> k = 1 \<or> k = 2 \<or> k = 3 \<or> k = 4 \<or> k = 5 \<or> k = 6 \<or> k = 7 \<or> k = 8 \<or> k = (9::nat)"
  by arith

lemma digit_char_props:
  assumes "k < 10"
  shows "is_digit (digit_char k)" and "(of_char (digit_char k) :: nat) = 48 + k"
    and "digit_char k \<noteq> CHR ''-''"
proof -
  show v: "(of_char (digit_char k) :: nat) = 48 + k"
    using below_ten [OF assms] by (elim disjE) (simp_all add: digit_char_def)
  then show "is_digit (digit_char k)"
    using assms by (simp add: is_digit_def)
  show "digit_char k \<noteq> CHR ''-''"
    using v by auto
qed

lemma digits_value_snoc: "digits_value (s @ [c]) = 10 * digits_value s + (of_char c - 48)"
  by (simp add: digits_value_def)

lemma string_of_nat_props:
  "list_all is_digit (string_of_nat n) \<and> digits_value (string_of_nat n) = n
   \<and> CHR ''-'' \<notin> set (string_of_nat n) \<and> string_of_nat n \<noteq> []"
proof (induction n rule: string_of_nat.induct)
  case (1 n)
  show ?case
  proof (cases "n < 10")
    case True
    then show ?thesis using digit_char_props [of n]
      by (subst (1 2 3 4) string_of_nat.simps) (auto simp: digits_value_def)
  next
    case False
    then have m: "n mod 10 < 10" by simp
    from False 1 have IH: "list_all is_digit (string_of_nat (n div 10))"
      "digits_value (string_of_nat (n div 10)) = n div 10"
      "CHR ''-'' \<notin> set (string_of_nat (n div 10))" by auto
    show ?thesis using False IH digit_char_props [OF m]
      by (subst (1 2 3 4) string_of_nat.simps) (auto simp: digits_value_snoc)
  qed
qed

lemma digits_value_zeros: "digits_value (replicate k CHR ''0'' @ s) = digits_value s"
proof -
  have "foldl (\<lambda>acc c. 10 * acc + (of_char c - 48)) 0 (replicate k CHR ''0'') = (0::nat)"
    by (induction k) (simp_all add: replicate_app_Cons_same)
  then show ?thesis by (simp add: digits_value_def)
qed

lemma padStart2_props:
  assumes "list_all is_digit s" "CHR ''-'' \<notin> set s"
  shows "list_all is_digit (padStart2 s)" "digits_value (padStart2 s) = digits_value s"
    "CHR ''-'' \<notin> set (padStart2 s)"
  using assms by (auto simp: padStart2_def digits_value_zeros is_digit_def list_all_iff)

lemma split_on_no_sep: "sep \<notin> set a \<Longrightarrow> split_on sep a = [a]"
  by (induction a) auto

lemma split_on_append: "sep \<notin> set a \<Longrightarrow> split_on sep (a @ sep # rest) = a # split_on sep rest"
  by (induction a) auto

lemma NumberOfField_nat:
  "NumberOfField (string_of_nat n) = Some (int n)"
  "NumberOfField (padStart2 (string_of_nat n)) = Some (int n)"
  using string_of_nat_props [of n] padStart2_props [of "string_of_nat n"]
  by (simp_all add: NumberOfField_def)

lemma parse_format:
  assumes "- 573371 \<le> z" "z \<le> 100000000"
  shows "parseIsoDate (formatDate (Some z)) = Some z"
proof -
  obtain y m d where cv: "civil_from_days z = (y, m, d)" by (cases "civil_from_days z") auto
  from civil_from_days_inverse [OF cv] assms(1)
  have b: "400 \<le> y" "1 \<le> m" "m \<le> 12" "1 \<le> d" by auto
  define ys where "ys = string_of_nat (nat y)"
  define ms where "ms = padStart2 (string_of_nat (nat m))"
  define ds where "ds = padStart2 (string_of_nat (nat d))"
  have fmt: "formatDate (Some z) = ys @ CHR ''-'' # ms @ CHR ''-'' # ds"
    using b by (simp add: formatDate_def cv string_of_int_def ys_def ms_def ds_def)
  have nosep: "CHR ''-'' \<notin> set ys" "CHR ''-'' \<notin> set ms" "CHR ''-'' \<notin> set ds"
    using string_of_nat_props padStart2_props(3) by (auto simp: ys_def ms_def ds_def)
  have sp: "split_on CHR ''-'' (formatDate (Some z)) = [ys, ms, ds]"
    by (simp add: fmt split_on_append nosep split_on_no_sep)
  have nums: "NumberOfField ys = Some y" "NumberOfField ms = Some m" "NumberOfField ds = Some d"
    using b by (simp_all add: ys_def ms_def ds_def NumberOfField_nat)
  have "DateUTC y (m - 1) d = TimeClip z"
    using b MakeDay_civil [OF cv, of 0] by (simp add: DateUTC_def)
  then show ?thesis
    using assms by (simp add: parseIsoDate_def sp nums TimeClip_def field_number_def)
qed

section \<open>Date ranges\<close>


lemma todayUtc_eq:
  assumes "0 \<le> z" "z \<le> 100000000"
  shows "(case civil_from_days z of (y, m, d) \<Rightarrow> DateUTC y (m - 1) d) = Some z"
proof -
  obtain y m d where cv: "civil_from_days z = (y, m, d)"
    by (cases "civil_from_days z") auto
  from civil_from_days_inverse(5) [OF cv] assms have "400 \<le> y"
    by simp
  then show ?thesis
    using MakeDay_civil [OF cv, of 0] assms by (simp add: cv DateUTC_def TimeClip_def)
qed




section \<open>Summary mode\<close>

lemma foldl_label_step:
  "foldl label_step acc rs =
     ((case filter (\<lambda>row. row_label row = Some ''date_range_0'') rs of
         [] \<Rightarrow> fst acc
       | ms \<Rightarrow> metric_number (opt_nth (metricValues (last ms)) 0)),
      (case filter (\<lambda>row. row_label row = Some ''date_range_1'') rs of
         [] \<Rightarrow> snd acc
       | ms \<Rightarrow> metric_number (opt_nth (metricValues (last ms)) 0)))"
proof (induction rs arbitrary: acc)
  case Nil
  show ?case by simp
next
  case (Cons row rs)
  show ?case
    by (simp add: Cons.IH) (simp add: label_step_def Let_def split: list.splits)
qed

lemma looped_buckets:
  "foldl label_step (0, 0) rs
     = (bucket_value ''date_range_0'' rs, bucket_value ''date_range_1'' rs)"
  by (simp add: foldl_label_step bucket_value_def split: list.splits)

text \<open>
  Claim C3. When the report request returns, fetchNewUsers returns a NewUsersDelta
  whose counters follow the policy: both 0 for no rows; the first two metric values for
  the flattened single row; otherwise, for each bucket, the metric of the last row
  labelled with it, and 0 when no row is (a row with another label changes nothing).
  In every case delta is current minus previous, and pct is null when previous is 0
  and delta / previous otherwise.
\<close>

theorem fetchNewUsers_policy:
  "\<exists>out. fetchNewUsers (Inr data) = Inr out
     \<and> (response_rows data = [] \<longrightarrow> current out = 0 \<and> previous out = 0)
     \<and> (flat_row (response_rows data) \<longrightarrow>
          current out = metric_number (opt_nth (metricValues (hd (response_rows data))) 0)
          \<and> previous out
              = metric_number (opt_nth (metricValues (hd (response_rows data))) 1))
     \<and> (\<not> flat_row (response_rows data) \<longrightarrow>
          current out = bucket_value ''date_range_0'' (response_rows data)
          \<and> previous out = bucket_value ''date_range_1'' (response_rows data))
     \<and> delta out = current out - previous out
     \<and> pct out = (if previous out = 0 then None
                  else Some (of_int (delta out) / of_int (previous out)))"
  by (auto simp: fetchNewUsers_def newUsersOfResponse_def Let_def looped_buckets
      flat_row_def bucket_value_def)


section \<open>Series mode\<close>

lemma rowMap_filter:
  "rowMap rs d =
     (case filter (\<lambda>row. date row = d) rs of [] \<Rightarrow> None | ms \<Rightarrow> Some (value (last ms)))"
proof (induction rs rule: rev_induct)
  case Nil
  show ?case by (simp add: rowMap_def)
next
  case (snoc row rs)
  then show ?case
    by (auto simp: rowMap_def split: list.splits)
qed

lemma get_or_zero_rowMap: "get_or_zero (rowMap rs) d = recorded_value rs d"
  by (simp add: get_or_zero_def rowMap_filter recorded_value_def split: list.splits)

lemma length_buildDateList [simp]: "length (buildDateList start (Some n)) = n"
  by (simp add: buildDateList_def)

lemma nth_buildDateList:
  "i < n \<Longrightarrow> buildDateList start (Some n) ! i
     = formatDate (addDays (parseIsoDate start) (Some (int i)))"
  by (simp add: buildDateList_def)

lemma series_buildSeries:
  "series (buildSeries cr pr currentRows previousRows days) =
     map (\<lambda>(d, index).
            \<lparr>pt_date = d, pt_current = recorded_value currentRows d,
             pt_previous = recorded_value previousRows (buildDateList (startDate pr) days ! index)\<rparr>)
       (zip (buildDateList (startDate cr) days)
          [0 ..< length (buildDateList (startDate cr) days)])"
proof -
  have len: "length (buildDateList (startDate pr) days)
               = length (buildDateList (startDate cr) days)"
    by (simp add: buildDateList_def)
  show ?thesis
    by (auto simp: buildSeries_def Let_def get_or_zero_rowMap len in_set_zip)
qed

lemma TimeClip_Some: "TimeClip z = Some c \<Longrightarrow> \<bar>c\<bar> \<le> 100000000"
  by (simp add: TimeClip_def split: if_splits)

lemma parseIsoDate_Some:
  assumes "parseIsoDate start = Some c"
  shows "\<bar>c\<bar> \<le> 100000000"
proof -
  from assms obtain y m d where "DateUTC y m d = Some c"
    by (simp add: parseIsoDate_def Let_def split: option.splits)
  then show ?thesis
    by (simp add: DateUTC_def Let_def TimeClip_Some)
qed


lemma range_date:
  assumes "parseIsoDate start = Some c" "c + int n \<le> 100000000" "i < n"
  shows "buildDateList start (Some n) ! i = formatDate (Some (c + int i))"
proof -
  from parseIsoDate_Some [OF assms(1)] have "\<bar>c + int i\<bar> \<le> 100000000"
    using assms(2,3) by linarith
  then have "addDays (Some c) (Some (int i)) = Some (c + int i)"
    by (simp add: addDays_Some TimeClip_def)
  then show ?thesis
    by (simp add: nth_buildDateList [OF assms(3)] assms(1))
qed

lemma formatDate_inj:
  assumes "- 573371 \<le> a" "a \<le> 100000000" "- 573371 \<le> b" "b \<le> 100000000"
    "formatDate (Some a) = formatDate (Some b)"
  shows "a = b"
proof -
  have "Some a = parseIsoDate (formatDate (Some a))"
    using parse_format [OF assms(1,2)] by (rule sym)
  also have "\<dots> = parseIsoDate (formatDate (Some b))"
    by (simp only: assms(5))
  also have "\<dots> = Some b"
    by (rule parse_format [OF assms(3,4)])
  finally show ?thesis by simp
qed


lemma nth_series:
  assumes "i < n"
  shows "series (buildSeries cr pr currentRows previousRows (Some n)) ! i =
     \<lparr>pt_date = buildDateList (startDate cr) (Some n) ! i,
      pt_current = recorded_value currentRows (buildDateList (startDate cr) (Some n) ! i),
      pt_previous = recorded_value previousRows (buildDateList (startDate pr) (Some n) ! i)\<rparr>"
  using assms by (simp add: series_buildSeries)

lemma length_series [simp]:
  "length (series (buildSeries cr pr currentRows previousRows (Some n))) = n"
  by (simp add: series_buildSeries)

lemma first_day_only:
  assumes "- 573371 \<le> c" "c + int n \<le> 100000000" "i < n"
  shows "(formatDate (Some c) = formatDate (Some (c + int i))) = (i = 0)"
proof
  assume "formatDate (Some c) = formatDate (Some (c + int i))"
  from formatDate_inj [OF _ _ _ _ this] assms have "c = c + int i" by linarith
  then show "i = 0" by simp
next
  assume "i = 0" then show "formatDate (Some c) = formatDate (Some (c + int i))" by simp
qed

text \<open>
  Claim C4. For ranges whose start dates are calendar dates, buildSeries returns one
  point per day of the window: point \<open>i\<close> carries day \<open>i\<close> of the current range, the
  value the current rows record for that date, and the value the previous rows record
  for day \<open>i\<close> of the previous range, each 0 when no row has the date. The days are
  paired by position. With a single current row on the first day, the first point
  carries its value and every other point carries 0.
\<close>

theorem buildSeries_alignment:
  assumes "parseIsoDate (startDate cr) = Some c" and "parseIsoDate (startDate pr) = Some p"
    and "c + int n \<le> 100000000" and "p + int n \<le> 100000000"
  shows "length (series (buildSeries cr pr currentRows previousRows (Some n))) = n
     \<and> (\<forall>i<n.
          pt_date (series (buildSeries cr pr currentRows previousRows (Some n)) ! i)
            = formatDate (Some (c + int i))
          \<and> pt_current (series (buildSeries cr pr currentRows previousRows (Some n)) ! i)
            = recorded_value currentRows (formatDate (Some (c + int i)))
          \<and> pt_previous (series (buildSeries cr pr currentRows previousRows (Some n)) ! i)
            = recorded_value previousRows (formatDate (Some (p + int i))))
     \<and> (- 573371 \<le> c \<and> 0 < n \<longrightarrow>
          map pt_current
            (series (buildSeries cr pr [\<lparr>date = formatDate (Some c), value = v\<rparr>]
               previousRows (Some n)))
          = v # replicate (n - 1) 0)"
proof (intro conjI allI impI)
  show "length (series (buildSeries cr pr currentRows previousRows (Some n))) = n"
    by simp
next
  fix i assume i: "i < n"
  note dc = range_date [OF assms(1,3) i]
  note dp = range_date [OF assms(2,4) i]
  show "pt_date (series (buildSeries cr pr currentRows previousRows (Some n)) ! i)
            = formatDate (Some (c + int i))"
    by (simp add: nth_series [OF i] dc)
  show "pt_current (series (buildSeries cr pr currentRows previousRows (Some n)) ! i)
            = recorded_value currentRows (formatDate (Some (c + int i)))"
    by (simp add: nth_series [OF i] dc)
  show "pt_previous (series (buildSeries cr pr currentRows previousRows (Some n)) ! i)
            = recorded_value previousRows (formatDate (Some (p + int i)))"
    by (simp add: nth_series [OF i] dp)
next
  assume a: "- 573371 \<le> c \<and> 0 < n"
  let ?S = "series (buildSeries cr pr [\<lparr>date = formatDate (Some c), value = v\<rparr>]
              previousRows (Some n))"
  show "map pt_current ?S = v # replicate (n - 1) 0"
  proof (rule nth_equalityI)
    show "length (map pt_current ?S) = length (v # replicate (n - 1) 0)"
      using a by simp
  next
    fix i assume "i < length (map pt_current ?S)"
    then have i: "i < n" by simp
    have eq: "(formatDate (Some c) = formatDate (Some (c + int i))) = (i = 0)"
      using a assms(3) i by (intro first_day_only) auto
    have "map pt_current ?S ! i
            = recorded_value [\<lparr>date = formatDate (Some c), value = v\<rparr>]
                (formatDate (Some (c + int i)))"
      using i by (simp add: nth_series [OF i] range_date [OF assms(1,3) i])
    also have "\<dots> = (if i = 0 then v else 0)"
      by (simp add: recorded_value_def eq)
    also have "\<dots> = (v # replicate (n - 1) 0) ! i"
      using i by (cases i) simp_all
    finally show "map pt_current ?S ! i = (v # replicate (n - 1) 0) ! i" .
  qed
qed


lemma foldl_plus_sum_list:
  "foldl (\<lambda>sum point. sum + f point) (a::int) xs = a + sum_list (map f xs)"
  by (induction xs arbitrary: a) simp_all

lemma zip_indices: "zip xs [0 ..< length xs] = map (\<lambda>i. (xs ! i, i)) [0 ..< length xs]"
  by (rule nth_equalityI) simp_all

lemma totals_of_series:
  "currentTotal (buildSeries cr pr currentRows previousRows days)
     = sum_list (map pt_current (series (buildSeries cr pr currentRows previousRows days)))"
  "previousTotal (buildSeries cr pr currentRows previousRows days)
     = sum_list (map pt_previous (series (buildSeries cr pr currentRows previousRows days)))"
  by (simp_all add: buildSeries_def Let_def foldl_plus_sum_list)

lemma series_points:
  "series (buildSeries cr pr currentRows previousRows (Some n)) =
     map (\<lambda>i.
            \<lparr>pt_date = buildDateList (startDate cr) (Some n) ! i,
             pt_current = recorded_value currentRows (buildDateList (startDate cr) (Some n) ! i),
             pt_previous = recorded_value previousRows (buildDateList (startDate pr) (Some n) ! i)\<rparr>)
       [0 ..< n]"
  by (rule nth_equalityI) (simp_all add: nth_series)

lemma buildSeries_points:
  "buildSeries cr pr currentRows previousRows (Some n) =
     (let points = map (\<lambda>i.
            \<lparr>pt_date = buildDateList (startDate cr) (Some n) ! i,
             pt_current = recorded_value currentRows (buildDateList (startDate cr) (Some n) ! i),
             pt_previous = recorded_value previousRows (buildDateList (startDate pr) (Some n) ! i)\<rparr>)
          [0 ..< n]
      in \<lparr>series = points,
          currentTotal = sum_list (map pt_current points),
          previousTotal = sum_list (map pt_previous points)\<rparr>)"
  unfolding Let_def series_points [symmetric] totals_of_series [symmetric] by simp

lemma totals_buildSeries:
  "currentTotal (buildSeries cr pr currentRows previousRows (Some n))
     = sum_list (map (recorded_value currentRows) (buildDateList (startDate cr) (Some n)))"
  "previousTotal (buildSeries cr pr currentRows previousRows (Some n))
     = sum_list (map (recorded_value previousRows) (buildDateList (startDate pr) (Some n)))"
proof -
  have m: "\<And>f ds. length ds = n \<Longrightarrow> map (\<lambda>i. f (ds ! i)) [0 ..< n] = map f ds"
    by (rule nth_equalityI) simp_all
  show "currentTotal (buildSeries cr pr currentRows previousRows (Some n))
     = sum_list (map (recorded_value currentRows) (buildDateList (startDate cr) (Some n)))"
    by (simp add: buildSeries_points Let_def o_def m)
  show "previousTotal (buildSeries cr pr currentRows previousRows (Some n))
     = sum_list (map (recorded_value previousRows) (buildDateList (startDate pr) (Some n)))"
    by (simp add: buildSeries_points Let_def o_def m)
qed

lemma recorded_value_drop:
  "date row \<noteq> d \<Longrightarrow> recorded_value (xs @ row # ys) d = recorded_value (xs @ ys) d"
  by (simp add: recorded_value_def)

lemma buildSeries_cong:
  assumes "\<And>d. d \<in> set (buildDateList (startDate cr) (Some n)) \<Longrightarrow> recorded_value c1 d = recorded_value c2 d"
    and "\<And>d. d \<in> set (buildDateList (startDate pr) (Some n)) \<Longrightarrow> recorded_value p1 d = recorded_value p2 d"
  shows "buildSeries cr pr c1 p1 (Some n) = buildSeries cr pr c2 p2 (Some n)"
proof -
  have "\<And>i. i < n \<Longrightarrow> recorded_value c1 (buildDateList (startDate cr) (Some n) ! i) = recorded_value c2 (buildDateList (startDate cr) (Some n) ! i)"
    by (rule assms(1)) simp
  moreover have "\<And>i. i < n \<Longrightarrow> recorded_value p1 (buildDateList (startDate pr) (Some n) ! i) = recorded_value p2 (buildDateList (startDate pr) (Some n) ! i)"
    by (rule assms(2)) simp
  ultimately have eq: "map (\<lambda>i.
            \<lparr>pt_date = buildDateList (startDate cr) (Some n) ! i,
             pt_current = recorded_value c1 (buildDateList (startDate cr) (Some n) ! i),
             pt_previous = recorded_value p1 (buildDateList (startDate pr) (Some n) ! i)\<rparr>)
          [0 ..< n] = map (\<lambda>i.
            \<lparr>pt_date = buildDateList (startDate cr) (Some n) ! i,
             pt_current = recorded_value c2 (buildDateList (startDate cr) (Some n) ! i),
             pt_previous = recorded_value p2 (buildDateList (startDate pr) (Some n) ! i)\<rparr>)
          [0 ..< n]"
    by simp
  show ?thesis
    by (simp only: buildSeries_points Let_def eq)
qed

lemma buildSeries_None:
  "buildSeries cr pr c1 p1 None = \<lparr>series = [], currentTotal = 0, previousTotal = 0\<rparr>"
  by (simp add: buildSeries_def buildDateList_def)

text \<open>
  Claim C10. A raw row whose date is not among the dates of its range's window changes
  nothing: buildSeries returns the same series and totals as without the row, for a
  current row as for a previous row. Each total is the sum, over the dates of the
  window, of the values recorded for those dates.
\<close>

theorem buildSeries_ignores_out_of_range:
  "(date row \<notin> set (buildDateList (startDate cr) days) \<longrightarrow>
      buildSeries cr pr (xs @ row # ys) previousRows days
        = buildSeries cr pr (xs @ ys) previousRows days)
   \<and> (date row \<notin> set (buildDateList (startDate pr) days) \<longrightarrow>
      buildSeries cr pr currentRows (xs @ row # ys) days
        = buildSeries cr pr currentRows (xs @ ys) days)
   \<and> currentTotal (buildSeries cr pr currentRows previousRows days)
        = sum_list (map (recorded_value currentRows) (buildDateList (startDate cr) days))
   \<and> previousTotal (buildSeries cr pr currentRows previousRows days)
        = sum_list (map (recorded_value previousRows) (buildDateList (startDate pr) days))"
proof (cases days)
  case None
  then show ?thesis by (simp add: buildSeries_None buildDateList_def)
next
  case (Some n)
  have a: "buildSeries cr pr (xs @ row # ys) previousRows (Some n)
        = buildSeries cr pr (xs @ ys) previousRows (Some n)"
    if "date row \<notin> set (buildDateList (startDate cr) (Some n))"
    using that by (intro buildSeries_cong recorded_value_drop refl) auto
  have b: "buildSeries cr pr currentRows (xs @ row # ys) (Some n)
        = buildSeries cr pr currentRows (xs @ ys) (Some n)"
    if "date row \<notin> set (buildDateList (startDate pr) (Some n))"
    using that by (intro buildSeries_cong recorded_value_drop refl) auto
  show ?thesis using a b by (simp add: Some totals_buildSeries)
qed

section \<open>Series totals and summary mode\<close>

lemma sum_list_absent:
  "k \<notin> set ds \<Longrightarrow> sum_list (map (\<lambda>d. if d = k then v else (0::int)) ds) = 0"
  by (induction ds) auto

lemma sum_list_single:
  "distinct ds \<Longrightarrow> k \<in> set ds \<Longrightarrow>
     sum_list (map (\<lambda>d. if d = k then v else (0::int)) ds) = v"
  by (induction ds) (auto simp: sum_list_absent)

lemma recorded_value_Cons:
  assumes "date r \<notin> set (map date rs)"
  shows "recorded_value (r # rs) d = (if d = date r then value r else 0) + recorded_value rs d"
proof -
  from assms have "filter (\<lambda>row. date row = date r) rs = []"
    by (induction rs) auto
  then show ?thesis
    by (auto simp: recorded_value_def)
qed

lemma sum_recorded:
  assumes "distinct ds"
  shows "distinct (map date rs) \<Longrightarrow> set (map date rs) \<subseteq> set ds \<Longrightarrow>
     sum_list (map (recorded_value rs) ds) = sum_list (map value rs)"
proof (induction rs)
  case Nil
  show ?case by (simp add: recorded_value_def)
next
  case (Cons r rs)
  then have nin: "date r \<notin> set (map date rs)" and mem: "date r \<in> set ds"
    and IH: "sum_list (map (recorded_value rs) ds) = sum_list (map value rs)"
    by auto
  have "sum_list (map (recorded_value (r # rs)) ds)
      = sum_list (map (\<lambda>d. (if d = date r then value r else 0) + recorded_value rs d) ds)"
    by (rule arg_cong [where f = sum_list], rule map_cong [OF refl])
      (rule recorded_value_Cons [OF nin])
  also have "\<dots> = sum_list (map (\<lambda>d. if d = date r then value r else 0) ds)
      + sum_list (map (recorded_value rs) ds)"
    by (simp add: sum_list_addf)
  also have "\<dots> = value r + sum_list (map value rs)"
    by (simp add: sum_list_single [OF assms mem] IH)
  finally show ?case by simp
qed

lemma distinct_buildDateList:
  assumes "parseIsoDate start = Some c" "- 573371 \<le> c" "c + int n \<le> 100000000"
  shows "distinct (buildDateList start (Some n))"
proof (rule iffD2 [OF distinct_conv_nth], intro allI impI)
  fix i j
  assume i: "i < length (buildDateList start (Some n))"
    and j: "j < length (buildDateList start (Some n))" and ne: "i \<noteq> j"
  then have i': "i < n" and j': "j < n" by simp_all
  show "buildDateList start (Some n) ! i \<noteq> buildDateList start (Some n) ! j"
  proof
    assume "buildDateList start (Some n) ! i = buildDateList start (Some n) ! j"
    then have "formatDate (Some (c + int i)) = formatDate (Some (c + int j))"
      by (simp only: range_date [OF assms(1,3) i'] range_date [OF assms(1,3) j'])
    from formatDate_inj [OF _ _ _ _ this] assms(2,3) i' j' have "c + int i = c + int j"
      by linarith
    with ne show False by simp
  qed
qed

lemma newUsers_aggregate:
  "newUsersOfResponse (aggregateResponse currentRows previousRows) =
     (let c = sum_list (map value currentRows); p = sum_list (map value previousRows)
      in \<lparr>current = c, previous = p, delta = c - p,
          pct = (if p = 0 then None else Some (of_int (c - p) / of_int p))\<rparr>)"
  by (simp add: newUsersOfResponse_def aggregateResponse_def response_rows_def Let_def
      label_step_def row_label_def opt_nth_def metric_number_def opt_length_def)

text \<open>
  Claim C2, amended. When the daily rows of each range have pairwise distinct dates
  that all lie in the window of their range, the summary getPropertyDetail derives
  from the totals of the aligned series is the NewUsersDelta fetchNewUsers computes
  from the summary report over the same rows (each bucket the sum of the daily values
  of its range). Without the condition on the rows the two differ: the series counts,
  for each date of the window, only the last row recorded for it.
\<close>

theorem series_totals_match_summary_mode:
  assumes "parseIsoDate (startDate cr) = Some c" and "parseIsoDate (startDate pr) = Some p"
    and "- 573371 \<le> c" and "c + int n \<le> 100000000"
    and "- 573371 \<le> p" and "p + int n \<le> 100000000"
    and "distinct (map date currentRows)"
    and "set (map date currentRows) \<subseteq> set (buildDateList (startDate cr) (Some n))"
    and "distinct (map date previousRows)"
    and "set (map date previousRows) \<subseteq> set (buildDateList (startDate pr) (Some n))"
  shows "fetchNewUsers (Inr (aggregateResponse currentRows previousRows))
     = Inr (summaryOfSeries (buildSeries cr pr currentRows previousRows (Some n)))"
proof -
  have ct: "currentTotal (buildSeries cr pr currentRows previousRows (Some n))
      = sum_list (map value currentRows)"
    using sum_recorded [OF distinct_buildDateList [OF assms(1,3,4)] assms(7,8)]
    by (simp add: totals_buildSeries)
  have pt: "previousTotal (buildSeries cr pr currentRows previousRows (Some n))
      = sum_list (map value previousRows)"
    using sum_recorded [OF distinct_buildDateList [OF assms(2,5,6)] assms(9,10)]
    by (simp add: totals_buildSeries)
  show ?thesis
    by (simp add: fetchNewUsers_def newUsers_aggregate summaryOfSeries_def Let_def ct pt)
qed

section \<open>Bounded fan-out\<close>

lemma launch_prefix:
  "m \<le> length items \<Longrightarrow>
   foldl (\<lambda>p _. p\<lparr>nextIndex := nextIndex p + 1,
                   runners := runners p @ [loop_head items worker (nextIndex p)]\<rparr>)
     \<lparr>nextIndex = 0, results = replicate (length items) None, runners = []\<rparr> [0 ..< m]
   = \<lparr>nextIndex = m, results = replicate (length items) None,
      runners = map (\<lambda>i. Awaiting i (worker (items ! i) i)) [0 ..< m]\<rparr>"
  by (induction m) (simp_all add: loop_head_def)

lemma launch_eq:
  "launch items limit worker =
     \<lparr>nextIndex = min limit (length items), results = replicate (length items) None,
      runners = map (\<lambda>i. Awaiting i (worker (items ! i) i)) [0 ..< min limit (length items)]\<rparr>"
  unfolding launch_def by (rule launch_prefix) simp

lemma pool_inv_launch:
  "pool_inv items worker (min limit (length items)) (launch items limit worker)"
proof -
  let ?k = "min limit (length items)"
  have "\<exists>j<?k. \<exists>res. map (\<lambda>i. Awaiting i (worker (items ! i) i)) [0 ..< ?k] ! j
          = Awaiting i res"
    if "i < ?k" for i
    using that by (intro exI [of _ i]) simp
  then show ?thesis
    by (simp add: launch_eq pool_inv_def)
qed

lemma pool_inv_resume:
  assumes inv: "pool_inv items worker k p"
    and j: "j < length (runners p)" and a: "runners p ! j = Awaiting i (Inr v)"
  shows "pool_inv items worker k (resume items worker j i v p)"
proof -
  from inv have len: "length (results p) = length items" "length (runners p) = k"
    and aw: "\<And>j' i' res. j' < k \<Longrightarrow> runners p ! j' = Awaiting i' res \<Longrightarrow>
           i' < length items \<and> i' < nextIndex p \<and> res = worker (items ! i') i'"
    and cov: "\<And>i'. i' < length items \<Longrightarrow> i' < nextIndex p \<Longrightarrow>
           (\<exists>v. worker (items ! i') i' = Inr v \<and> results p ! i' = Some v)
           \<or> (\<exists>j'<k. \<exists>res. runners p ! j' = Awaiting i' res)"
    and fin: "\<And>j'. j' < k \<Longrightarrow> runners p ! j' = Finished \<Longrightarrow> length items \<le> nextIndex p"
    unfolding pool_inv_def by blast+
  from j len have jk: "j < k" by simp
  from aw [OF jk a] have i: "i < length items" "i < nextIndex p" "worker (items ! i) i = Inr v"
    by auto
  let ?q = "resume items worker j i v p"
  have rq: "results ?q = (results p)[i := Some v]"
    and nq: "nextIndex ?q = nextIndex p + 1"
    and uq: "runners ?q = (runners p)[j := loop_head items worker (nextIndex p)]"
    by (simp_all add: resume_def)
  have c1: "length (results ?q) = length items" by (simp add: rq len)
  have c2: "length (runners ?q) = k" by (simp add: uq len)
  have c3: "i' < length items \<and> i' < nextIndex ?q \<and> res = worker (items ! i') i'"
    if j': "j' < k" and a': "runners ?q ! j' = Awaiting i' res" for j' i' res
    proof (cases "j' = j")
      case True
      with a' jk len have "loop_head items worker (nextIndex p) = Awaiting i' res"
        by (simp add: uq)
      then show ?thesis
        by (auto simp: loop_head_def nq split: if_splits)
    next
      case False
      with a' have "runners p ! j' = Awaiting i' res" by (simp add: uq)
      from aw [OF j' this] show ?thesis by (simp add: nq)
    qed
  have c4: "(\<exists>v. worker (items ! i') i' = Inr v \<and> results ?q ! i' = Some v)
          \<or> (\<exists>j'<k. \<exists>res. runners ?q ! j' = Awaiting i' res)"
    if i': "i' < length items" and lt: "i' < nextIndex ?q" for i'
    proof (cases "i' = nextIndex p")
      case True
      with i' have "runners ?q ! j = Awaiting i' (worker (items ! i') i')"
        using jk len by (simp add: uq loop_head_def)
      with jk show ?thesis by blast
    next
      case False
      with lt have "i' < nextIndex p" by (simp add: nq)
      from cov [OF i' this] show ?thesis
      proof
        assume "\<exists>v. worker (items ! i') i' = Inr v \<and> results p ! i' = Some v"
        then obtain v' where v': "worker (items ! i') i' = Inr v'" "results p ! i' = Some v'"
          by blast
        have "(results p)[i := Some v] ! i' = Some v'"
          using v' i len by (cases "i' = i") simp_all
        then have "results ?q ! i' = Some v'"
          by (simp only: rq)
        with v' show ?thesis by blast
      next
        assume "\<exists>j'<k. \<exists>res. runners p ! j' = Awaiting i' res"
        then obtain j' res where j': "j' < k" "runners p ! j' = Awaiting i' res"
          by blast
        show ?thesis
        proof (cases "j' = j")
          case True
          with j' a have "i' = i" by simp
          then have "worker (items ! i') i' = Inr v \<and> results ?q ! i' = Some v"
            using i len by (simp add: rq)
          then show ?thesis by blast
        next
          case False
          with j' have "runners ?q ! j' = Awaiting i' res" by (simp add: uq)
          with j' show ?thesis by blast
        qed
      qed
    qed
  have c5: "length items \<le> nextIndex ?q"
    if j': "j' < k" and f': "runners ?q ! j' = Finished" for j'
    proof (cases "j' = j")
      case True
      with f' jk len have "loop_head items worker (nextIndex p) = Finished"
        by (simp add: uq)
      then show ?thesis
        by (auto simp: loop_head_def nq split: if_splits)
    next
      case False
      with f' have "runners p ! j' = Finished" by (simp add: uq)
      from fin [OF j' this] show ?thesis by (simp add: nq)
    qed
  show ?thesis
    unfolding pool_inv_def using c1 c2 c3 c4 c5 by blast
qed

lemma pool_inv_step:
  "step items worker p q \<Longrightarrow> pool_inv items worker k p \<Longrightarrow> pool_inv items worker k q"
  by (induction rule: step.induct) (rule pool_inv_resume)

lemma pool_inv_steps:
  "(step items worker)\<^sup>*\<^sup>* p q \<Longrightarrow> pool_inv items worker k p \<Longrightarrow> pool_inv items worker k q"
  by (induction rule: rtranclp_induct) (auto intro: pool_inv_step)


lemma finished_results:
  assumes inv: "pool_inv items worker k p" and fin: "finished p"
    and k: "length items = 0 \<or> 0 < k"
    and ok: "\<And>i. i < length items \<Longrightarrow> worker (items ! i) i = Inr (w i)"
  shows "results p = map (\<lambda>i. Some (w i)) [0 ..< length items]"
proof (rule nth_equalityI)
  show "length (results p) = length (map (\<lambda>i. Some (w i)) [0 ..< length items])"
    using inv by (simp add: pool_inv_def)
next
  fix i
  assume "i < length (results p)"
  with inv have i: "i < length items"
    by (simp add: pool_inv_def)
  with k have k0: "0 < k" by auto
  from inv have lk: "length (runners p) = k"
    by (simp add: pool_inv_def)
  from fin lk have allfin: "\<And>j. j < k \<Longrightarrow> runners p ! j = Finished"
    by (simp add: finished_def list_all_length)
  from inv k0 allfin [OF k0] have "length items \<le> nextIndex p"
    unfolding pool_inv_def by blast
  with i have "i < nextIndex p" by simp
  with inv i have "(\<exists>v. worker (items ! i) i = Inr v \<and> results p ! i = Some v)
      \<or> (\<exists>j<k. \<exists>res. runners p ! j = Awaiting i res)"
    unfolding pool_inv_def by blast
  with allfin have "\<exists>v. worker (items ! i) i = Inr v \<and> results p ! i = Some v"
    by auto
  with ok [OF i] have "results p ! i = Some (w i)"
    by auto
  with i show "results p ! i = map (\<lambda>i. Some (w i)) [0 ..< length items] ! i"
    by simp
qed

lemma no_rejection:
  assumes inv: "pool_inv items worker k p"
    and ok: "\<And>i. i < length items \<Longrightarrow> worker (items ! i) i = Inr (w i)"
    and j: "j < length (runners p)"
  shows "runners p ! j \<noteq> Awaiting i (Inl e)"
proof
  assume a: "runners p ! j = Awaiting i (Inl e)"
  from inv j have "j < k" by (simp add: pool_inv_def)
  with inv a have "i < length items \<and> Inl e = worker (items ! i) i"
    unfolding pool_inv_def by blast
  with ok [of i] show False by simp
qed

lemma first_awaiting_None:
  "first_awaiting rs = None \<Longrightarrow> list_all (\<lambda>r. r = Finished) rs"
  by (induction rs rule: first_awaiting.induct) (auto split: option.splits)

lemma outcome_step:
  assumes "step items worker p q" and "outcome items worker q out"
  shows "outcome items worker p out"
proof -
  from assms(2) obtain q' where q': "(step items worker)\<^sup>*\<^sup>* q q'"
    and r: "(finished q' \<and> out = Inr (results q'))
       \<or> (\<exists>j i e. j < length (runners q') \<and> runners q' ! j = Awaiting i (Inl e) \<and> out = Inl e)"
    unfolding outcome_def by blast
  from assms(1) q' have "(step items worker)\<^sup>*\<^sup>* p q'"
    by (rule converse_rtranclp_into_rtranclp)
  with r show ?thesis
    unfolding outcome_def by blast
qed

lemma drain_outcome: "outcome items worker p (drain items worker p)"
proof (induction items worker p rule: drain.induct)
  case (1 items worker p)
  show ?case
  proof (cases "first_awaiting (runners p)")
    case None
    then have "finished p"
      by (simp add: finished_def first_awaiting_None)
    moreover have "drain items worker p = Inr (results p)"
      using None by (simp add: drain.simps)
    ultimately show ?thesis
      unfolding outcome_def by blast
  next
    case (Some x)
    then obtain j i res where x: "first_awaiting (runners p) = Some (j, i, res)"
      by (cases x) auto
    from first_awaiting_Some [OF x]
    have j: "j < length (runners p)" "runners p ! j = Awaiting i res"
      by auto
    show ?thesis
    proof (cases res)
      case (Inl e)
      then have "drain items worker p = Inl e"
        using x by (simp add: drain.simps)
      with j Inl show ?thesis
        unfolding outcome_def by blast
    next
      case (Inr v)
      then have d: "drain items worker p = drain items worker (resume items worker j i v p)"
        using x by (simp add: drain.simps)
      from j Inr have "step items worker p (resume items worker j i v p)"
        by (auto intro: step.intros)
      moreover from "1.IH" [OF x refl refl Inr]
      have "outcome items worker (resume items worker j i v p)
              (drain items worker (resume items worker j i v p))" .
      ultimately show ?thesis
        unfolding d by (rule outcome_step)
    qed
  qed
qed

lemma outcome_determined:
  assumes "1 \<le> limit"
    and ok: "\<And>i. i < length items \<Longrightarrow> worker (items ! i) i = Inr (w i)"
    and out: "outcome items worker (launch items limit worker) out"
  shows "out = Inr (map (\<lambda>i. Some (w i)) [0 ..< length items])"
proof -
  let ?k = "min limit (length items)"
  from out obtain q where q: "(step items worker)\<^sup>*\<^sup>* (launch items limit worker) q"
    and r: "(finished q \<and> out = Inr (results q))
       \<or> (\<exists>j i e. j < length (runners q) \<and> runners q ! j = Awaiting i (Inl e) \<and> out = Inl e)"
    unfolding outcome_def by blast
  from pool_inv_steps [OF q pool_inv_launch] have inv: "pool_inv items worker ?k q" .
  from r no_rejection [OF inv ok] have fin: "finished q" and o: "out = Inr (results q)"
    by blast+
  have "length items = 0 \<or> 0 < ?k"
    using assms(1) by auto
  from finished_results [OF inv fin this ok] o show ?thesis
    by simp
qed

lemma runLimited_resolving:
  assumes "1 \<le> limit"
  shows "runLimited items limit (\<lambda>x _. Inr (f x)) = Inr (map (\<lambda>x. Some (f x)) items)"
proof -
  have "runLimited items limit (\<lambda>x _. Inr (f x))
      = Inr (map (\<lambda>i. Some (f (items ! i))) [0 ..< length items])"
    unfolding runLimited_def
  proof (rule outcome_determined [where w = "\<lambda>i. f (items ! i)"])
    show "1 \<le> limit" by (rule assms)
    show "\<And>i. i < length items \<Longrightarrow> Inr (f (items ! i)) = Inr (f (items ! i))" by simp
    show "outcome items (\<lambda>x _. Inr (f x)) (launch items limit (\<lambda>x _. Inr (f x)))
            (drain items (\<lambda>x _. Inr (f x)) (launch items limit (\<lambda>x _. Inr (f x))))"
      by (rule drain_outcome)
  qed
  also have "map (\<lambda>i. Some (f (items ! i))) [0 ..< length items] = map (\<lambda>x. Some (f x)) items"
    by (rule nth_equalityI) simp_all
  finally show ?thesis .
qed

lemma step_measure:
  assumes "step items worker p q"
  shows "(length items - nextIndex q) + in_flight q < (length items - nextIndex p) + in_flight p"
  using assms
proof (cases rule: step.cases)
  case (settle j i v)
  then have nf: "runners p ! j \<noteq> Finished"
    by simp
  show ?thesis
    using in_flight_update [OF settle(2) nf, of "loop_head items worker (nextIndex p)"]
    by (auto simp: settle(1) resume_def in_flight_def loop_head_def)
qed

lemma step_wf: "wfp (\<lambda>q p. step items worker p q)"
  by (rule wfp_if_convertible_to_nat
      [where f = "\<lambda>p. (length items - nextIndex p) + in_flight p"]) (rule step_measure)

lemma not_stuck:
  "finished p \<or> (\<exists>q. step items worker p q)
     \<or> (\<exists>j i e. j < length (runners p) \<and> runners p ! j = Awaiting i (Inl e))"
proof (cases "first_awaiting (runners p)")
  case None
  then show ?thesis
    by (simp add: finished_def first_awaiting_None)
next
  case (Some x)
  then obtain j i res where x: "first_awaiting (runners p) = Some (j, i, res)"
    by (cases x) auto
  from first_awaiting_Some [OF x]
  have j: "j < length (runners p)" "runners p ! j = Awaiting i res"
    by auto
  show ?thesis
  proof (cases res)
    case (Inl e)
    with j show ?thesis by blast
  next
    case (Inr v)
    with j have "step items worker p (resume items worker j i v p)"
      by (auto intro: step.intros)
    then show ?thesis by blast
  qed
qed

lemma finished_resolved:
  assumes inv: "pool_inv items worker k p" and fin: "finished p" and k0: "0 < k"
    and i: "i < length items"
  shows "\<exists>v. worker (items ! i) i = Inr v \<and> results p ! i = Some v"
proof -
  from inv have lk: "length (runners p) = k"
    by (simp add: pool_inv_def)
  from fin lk have allfin: "\<And>j. j < k \<Longrightarrow> runners p ! j = Finished"
    by (simp add: finished_def list_all_length)
  from inv k0 allfin [OF k0] have "length items \<le> nextIndex p"
    unfolding pool_inv_def by blast
  with i have "i < nextIndex p" by simp
  with inv i have "(\<exists>v. worker (items ! i) i = Inr v \<and> results p ! i = Some v)
      \<or> (\<exists>j<k. \<exists>res. runners p ! j = Awaiting i res)"
    unfolding pool_inv_def by blast
  with allfin show ?thesis
    by auto
qed

lemma outcome_rejecting:
  assumes l: "1 \<le> limit" and i0: "i0 < length items" and r0: "worker (items ! i0) i0 = Inl e0"
    and out: "outcome items worker (launch items limit worker) out"
  shows "\<exists>i<length items. \<exists>e. worker (items ! i) i = Inl e \<and> out = Inl e"
proof -
  let ?k = "min limit (length items)"
  from out obtain q where q: "(step items worker)\<^sup>*\<^sup>* (launch items limit worker) q"
    and r: "(finished q \<and> out = Inr (results q))
       \<or> (\<exists>j i e. j < length (runners q) \<and> runners q ! j = Awaiting i (Inl e) \<and> out = Inl e)"
    unfolding outcome_def by blast
  from pool_inv_steps [OF q pool_inv_launch] have inv: "pool_inv items worker ?k q" .
  from l i0 have k0: "0 < ?k" by (cases items) simp_all
  from r show ?thesis
  proof
    assume "finished q \<and> out = Inr (results q)"
    then have "finished q" ..
    from finished_resolved [OF inv this k0 i0] r0 show ?thesis
      by simp
  next
    assume "\<exists>j i e. j < length (runners q) \<and> runners q ! j = Awaiting i (Inl e) \<and> out = Inl e"
    then obtain j i e where j: "j < length (runners q)" "runners q ! j = Awaiting i (Inl e)"
      and o: "out = Inl e"
      by blast
    from inv j(1) have "j < ?k" by (simp add: pool_inv_def)
    with inv j(2) have "i < length items \<and> Inl e = worker (items ! i) i"
      unfolding pool_inv_def by blast
    with o show ?thesis by auto
  qed
qed

text \<open>
  Claim C9, amended. With a limit of at least 1: when the worker's calls on the items
  all resolve, runLimited returns a list as long as the input whose slot \<open>i\<close> holds
  the worker's result for item \<open>i\<close>, and that is the outcome under every order in
  which the suspended worker calls may settle. When a call on some item rejects,
  runLimited returns no list: it rejects, with the reason of a rejecting call, under
  every such order. The pool has \<open>min limit (length items)\<close> runners throughout, so
  at most that many worker calls are in flight. Every order of settling ends: no run of
  the pool goes on for ever, a state from which no call can settle is finished or has a
  rejected call, and from every state a run reaches an outcome.
\<close>

theorem runLimited_preserves_order:
  assumes "1 \<le> limit"
  shows "((\<forall>i<length items. worker (items ! i) i = Inr (w i)) \<longrightarrow>
            runLimited items limit worker = Inr (map (\<lambda>i. Some (w i)) [0 ..< length items])
            \<and> (\<forall>out. outcome items worker (launch items limit worker) out \<longrightarrow>
                  out = Inr (map (\<lambda>i. Some (w i)) [0 ..< length items])))
     \<and> ((\<exists>i<length items. \<exists>e. worker (items ! i) i = Inl e) \<longrightarrow>
            (\<exists>i<length items. \<exists>e. worker (items ! i) i = Inl e
                 \<and> runLimited items limit worker = Inl e)
            \<and> (\<forall>out. outcome items worker (launch items limit worker) out \<longrightarrow>
                  (\<exists>i<length items. \<exists>e. worker (items ! i) i = Inl e \<and> out = Inl e)))
     \<and> (\<forall>p. (step items worker)\<^sup>*\<^sup>* (launch items limit worker) p \<longrightarrow>
            length (runners p) = min limit (length items)
            \<and> in_flight p \<le> min limit (length items)
            \<and> (finished p \<or> (\<exists>q. step items worker p q)
                 \<or> (\<exists>j i e. j < length (runners p) \<and> runners p ! j = Awaiting i (Inl e)))
            \<and> (\<exists>out. outcome items worker p out))
     \<and> wfp (\<lambda>q p. step items worker p q)"
proof (intro conjI allI impI)
  show "wfp (\<lambda>q p. step items worker p q)"
    by (rule step_wf)
next
  assume a: "\<forall>i<length items. worker (items ! i) i = Inr (w i)"
  then have ok: "\<And>i. i < length items \<Longrightarrow> worker (items ! i) i = Inr (w i)"
    by simp
  have det: "out = Inr (map (\<lambda>i. Some (w i)) [0 ..< length items])"
    if o: "outcome items worker (launch items limit worker) out" for out
  proof (rule outcome_determined [where w = w])
    show "1 \<le> limit" by (rule assms(1))
    show "\<And>i. i < length items \<Longrightarrow> worker (items ! i) i = Inr (w i)" by (rule ok)
    show "outcome items worker (launch items limit worker) out" by (rule o)
  qed
  show "runLimited items limit worker = Inr (map (\<lambda>i. Some (w i)) [0 ..< length items])"
    unfolding runLimited_def
    by (rule det) (rule drain_outcome)
  show "out = Inr (map (\<lambda>i. Some (w i)) [0 ..< length items])"
    if "outcome items worker (launch items limit worker) out" for out
    using that by (rule det)
next
  assume "\<exists>i<length items. \<exists>e. worker (items ! i) i = Inl e"
  then obtain i0 e0 where i0: "i0 < length items" "worker (items ! i0) i0 = Inl e0"
    by blast
  show "\<exists>i<length items. \<exists>e. worker (items ! i) i = Inl e \<and> runLimited items limit worker = Inl e"
    unfolding runLimited_def
    by (rule outcome_rejecting [where worker = worker and ?i0.0 = i0 and ?e0.0 = e0])
      (rule assms i0 drain_outcome)+
  show "\<exists>i<length items. \<exists>e. worker (items ! i) i = Inl e \<and> out = Inl e"
    if "outcome items worker (launch items limit worker) out" for out
    by (rule outcome_rejecting [where worker = worker and ?i0.0 = i0 and ?e0.0 = e0])
      (rule assms i0 that)+
next
  fix p
  assume "(step items worker)\<^sup>*\<^sup>* (launch items limit worker) p"
  from pool_inv_steps [OF this pool_inv_launch]
  have l: "length (runners p) = min limit (length items)"
    by (simp add: pool_inv_def)
  then show "length (runners p) = min limit (length items)" .
  have "in_flight p \<le> length (runners p)"
    by (simp add: in_flight_def)
  with l show "in_flight p \<le> min limit (length items)"
    by simp
  show "finished p \<or> (\<exists>q. step items worker p q)
      \<or> (\<exists>j i e. j < length (runners p) \<and> runners p ! j = Awaiting i (Inl e))"
    by (rule not_stuck)
  show "\<exists>out. outcome items worker p out"
    using drain_outcome by blast
qed

section \<open>The dashboard run\<close>

lemma partition_step_simps:
  "partition_step acc None = acc"
  "partition_step acc (Some None) = acc"
  "partition_step acc (Some (Some x)) =
     (if truthy (sr_error x) then (fst acc @ [errorRowOf x], snd acc)
      else (fst acc, snd acc @ [x]))"
  by (simp_all add: partition_step_def)

lemma foldl_partition_step:
  "foldl partition_step acc (map (\<lambda>s. Some (f s)) xs) =
     (fst acc @ map errorRowOf (filter (\<lambda>x. truthy (sr_error x)) (List.map_filter f xs)),
      snd acc @ filter (\<lambda>x. \<not> truthy (sr_error x)) (List.map_filter f xs))"
proof (induction xs arbitrary: acc)
  case Nil
  show ?case by (simp add: List.map_filter_simps)
next
  case (Cons x xs)
  show ?case
    by (cases "f x") (simp_all add: Cons.IH partition_step_simps List.map_filter_simps)
qed

lemma partitionResults_workers:
  "partitionResults (map (\<lambda>s. Some (streamWorker r token s)) filtered)
     = (errorRowsOf r token filtered, reportTargetsOf r token filtered)"
  by (simp add: partitionResults_def foldl_partition_step errorRowsOf_def reportTargetsOf_def
      presentResults_def)

lemma getDashboardData_ok:
  assumes "getAccessToken r = Inr token" and "listPropertySummaries r token = Inr summaries"
  shows "getDashboardData e r c windowKey =
     ([CallGetAccessToken, CallListPropertySummaries]
        @ map (\<lambda>summary. CallListDataStreams (propertyId summary))
            (filterSummaries e summaries)
        @ map (\<lambda>result. CallRunReport (propertyId (sr_summary result))
                 (summaryBody (getDateRanges windowKey (nowDay c))))
            (reportTargetsOf r token (filterSummaries e summaries)),
      Inr \<lparr>updatedAt = nowIso c, window = windowKey,
           properties = dedupeProperties (sortProperties
             (mergedRows r token (getDateRanges windowKey (nowDay c))
                (filterSummaries e summaries)))\<rparr>)"
proof -
  have five: "(1::nat) \<le> 5" by simp
  show ?thesis
    unfolding getDashboardData_def Let_def
    by (simp add: assms runLimited_resolving [OF five] partitionResults_workers
        mergedRows_def list_all_iff o_def)
qed


section \<open>Sorting and deduplication\<close>

lemma dedupe_step_key:
  "dedupe_step acc row =
     (case domain_key row of
        None \<Rightarrow> (fst acc @ [row], snd acc)
      | Some k \<Rightarrow> if k \<in> set (snd acc) then acc else (fst acc @ [row], k # snd acc))"
  by (simp add: dedupe_step_def domain_key_def Let_def split: option.splits)

lemma kept_at_append:
  "i < length xs \<Longrightarrow> kept_at (xs @ [x]) i = kept_at xs i"
  by (simp add: kept_at_def nth_append)

lemma kept_at_last:
  "kept_at (xs @ [x]) (length xs)
     = (domain_key x = None \<or> (\<forall>row\<in>set xs. domain_key row \<noteq> domain_key x))"
  by (simp add: kept_at_def nth_append all_set_conv_all_nth)

lemma kept_rows_append:
  "map ((!) (xs @ [x])) (filter (kept_at (xs @ [x])) [0 ..< length xs])
     = map ((!) xs) (filter (kept_at xs) [0 ..< length xs])"
proof -
  have "filter (kept_at (xs @ [x])) [0 ..< length xs] = filter (kept_at xs) [0 ..< length xs]"
    by (rule filter_cong) (simp_all add: kept_at_append)
  moreover have "map ((!) (xs @ [x])) (filter (kept_at xs) [0 ..< length xs])
      = map ((!) xs) (filter (kept_at xs) [0 ..< length xs])"
    by (rule map_cong) (simp_all add: nth_append)
  ultimately show ?thesis by simp
qed

lemma kept_indices_snoc:
  "map ((!) (xs @ [x])) (filter (kept_at (xs @ [x])) [0 ..< length (xs @ [x])])
     = map ((!) xs) (filter (kept_at xs) [0 ..< length xs])
       @ (if kept_at (xs @ [x]) (length xs) then [x] else [])"
  using kept_rows_append [of xs x] by simp

lemma dedupe_state:
  "fst (foldl dedupe_step ([], []) xs) = map ((!) xs) (filter (kept_at xs) [0 ..< length xs])
   \<and> set (snd (foldl dedupe_step ([], []) xs)) = {k. \<exists>row\<in>set xs. domain_key row = Some k}"
proof (induction xs rule: rev_induct)
  case Nil
  show ?case by simp
next
  case (snoc x xs)
  define acc where "acc = foldl dedupe_step ([], []) xs"
  from snoc have out: "fst acc = map ((!) xs) (filter (kept_at xs) [0 ..< length xs])"
    and seen: "set (snd acc) = {k. \<exists>row\<in>set xs. domain_key row = Some k}"
    by (simp_all add: acc_def)
  have st: "foldl dedupe_step ([], []) (xs @ [x]) = dedupe_step acc x"
    by (simp add: acc_def)
  show ?case
  proof (cases "domain_key x")
    case None
    then have k: "kept_at (xs @ [x]) (length xs)"
      by (simp add: kept_at_last)
    have d: "dedupe_step acc x = (fst acc @ [x], snd acc)"
      using None by (simp add: dedupe_step_key)
    have "{k. \<exists>row\<in>set (xs @ [x]). domain_key row = Some k}
        = {k. \<exists>row\<in>set xs. domain_key row = Some k}"
      using None by auto
    then show ?thesis
      unfolding st d kept_indices_snoc using k by (simp add: out seen)
  next
    case (Some k)
    have keys: "{k'. \<exists>row\<in>set (xs @ [x]). domain_key row = Some k'}
        = insert k {k'. \<exists>row\<in>set xs. domain_key row = Some k'}"
      using Some by auto
    show ?thesis
    proof (cases "k \<in> set (snd acc)")
      case True
      then have nk: "\<not> kept_at (xs @ [x]) (length xs)"
        using Some by (auto simp: kept_at_last seen)
      have d: "dedupe_step acc x = acc"
        using Some True by (simp add: dedupe_step_key)
      from True have "insert k (set (snd acc)) = set (snd acc)"
        by auto
      then show ?thesis
        unfolding st d kept_indices_snoc keys using nk by (simp add: out seen [symmetric])
    next
      case False
      then have kk: "kept_at (xs @ [x]) (length xs)"
        using Some by (auto simp: kept_at_last seen)
      have d: "dedupe_step acc x = (fst acc @ [x], k # snd acc)"
        using Some False by (simp add: dedupe_step_key)
      show ?thesis
        unfolding st d kept_indices_snoc keys using kk by (simp add: out seen)
    qed
  qed
qed

lemma dedupeProperties_kept:
  "dedupeProperties xs = map ((!) xs) (filter (kept_at xs) [0 ..< length xs])"
  by (simp add: dedupeProperties_def dedupe_state)

lemma sortProperties_sorted:
  "sorted_wrt (\<lambda>a b. sortValue b \<le> sortValue a) (sortProperties xs)"
proof -
  have "sorted (map (\<lambda>a. - sortValue a) (sortProperties xs))"
    by (simp add: sortProperties_def)
  then show ?thesis
    by (simp add: sorted_map)
qed

lemma sortProperties_mset: "mset (sortProperties xs) = mset xs"
  by (simp add: sortProperties_def)

lemma sortProperties_stable:
  "filter (\<lambda>a. sortValue a = k) (sortProperties xs) = filter (\<lambda>a. sortValue a = k) xs"
proof -
  have "filter (\<lambda>a. - sortValue a = - k) (sort_key (\<lambda>a. - sortValue a) xs)
      = filter (\<lambda>a. - sortValue a = - k) xs"
    by (rule sort_key_stable)
  then show ?thesis by (simp add: sortProperties_def)
qed

lemma kept_rows_sorted:
  assumes "sorted_wrt P xs"
  shows "sorted_wrt P (map ((!) xs) (filter Q [0 ..< length xs]))"
proof -
  have inc: "sorted_wrt (<) (filter Q [0 ..< length xs])"
    by (rule sorted_wrt_filter) simp
  have bound: "\<forall>i\<in>set (filter Q [0 ..< length xs]). i < length xs"
    by simp
  from assms have nthP: "\<And>i j. i < j \<Longrightarrow> j < length xs \<Longrightarrow> P (xs ! i) (xs ! j)"
    by (simp add: sorted_wrt_iff_nth_less)
  have "sorted_wrt P (map ((!) xs) is)"
    if "sorted_wrt (<) is" "\<forall>i\<in>set is. i < length xs" for "is"
    using that
  proof (induction "is")
    case Nil
    show ?case by simp
  next
    case (Cons i "is")
    then show ?case
      by (auto intro: nthP)
  qed
  from this [OF inc bound] show ?thesis .
qed

lemma two_uris:
  assumes "defaultUri a = Some ''https://a.com/''" "defaultUri b = Some ''http://a.com''"
  shows "dedupeProperties [a, b] = [a]" "dedupeProperties [b, a] = [b]"
proof -
  have n: "normalizeUri ''https://a.com/'' = ''a.com''" "normalizeUri ''http://a.com'' = ''a.com''"
    by (simp_all add: normalizeUri_def starts_with_def toLowerCase_def lower_char_def)
  show "dedupeProperties [a, b] = [a]" "dedupeProperties [b, a] = [b]"
    using assms by (simp_all add: dedupeProperties_def dedupe_step_def n)
qed

text \<open>
  Claim C6, amended. When the token and the catalog are obtained, the response lists
  the merged report rows and stream-error rows in this order: sorted by current,
  descending, a row without newUsers counting as \<open>-1\<close> (so it follows every row with a
  count of 0 or more), rows of equal value in their merged order; then deduplicated by
  normalized domain, the first row of a domain in sorted order being kept. A row whose
  defaultUri is null or empty has no domain: it is never removed and removes no other
  row. Of two rows with the addresses https://a.com/ and http://a.com only the first
  is kept.
\<close>

theorem dashboard_sorted_and_deduplicated:
  assumes "getAccessToken r = Inr token" and "listPropertySummaries r token = Inr summaries"
  shows "\<exists>resp. snd (getDashboardData e r c windowKey) = Inr resp
     \<and> (let merged = mergedRows r token (getDateRanges windowKey (nowDay c))
                         (filterSummaries e summaries);
             ranked = sortProperties merged
         in mset ranked = mset merged
          \<and> sorted_wrt (\<lambda>a b. sortValue b \<le> sortValue a) ranked
          \<and> (\<forall>k. filter (\<lambda>a. sortValue a = k) ranked = filter (\<lambda>a. sortValue a = k) merged)
          \<and> properties resp = map ((!) ranked) (filter (kept_at ranked) [0 ..< length ranked])
          \<and> sorted_wrt (\<lambda>a b. sortValue b \<le> sortValue a) (properties resp)
          \<and> (\<forall>i j d. i < j \<and> j < length (properties resp)
                 \<and> newUsers (properties resp ! j) = Some d \<and> 0 \<le> current d
                 \<longrightarrow> newUsers (properties resp ! i) \<noteq> None))
     \<and> (\<forall>a b. defaultUri a = Some ''https://a.com/'' \<and> defaultUri b = Some ''http://a.com''
            \<longrightarrow> dedupeProperties [a, b] = [a] \<and> dedupeProperties [b, a] = [b])"
proof -
  define merged where "merged = mergedRows r token (getDateRanges windowKey (nowDay c))
                         (filterSummaries e summaries)"
  define ranked where "ranked = sortProperties merged"
  define out where "out = map ((!) ranked) (filter (kept_at ranked) [0 ..< length ranked])"
  have resp: "snd (getDashboardData e r c windowKey)
      = Inr \<lparr>updatedAt = nowIso c, window = windowKey, properties = out\<rparr>"
    by (simp add: getDashboardData_ok [OF assms] dedupeProperties_kept out_def ranked_def
        merged_def)
  have s1: "sorted_wrt (\<lambda>a b. sortValue b \<le> sortValue a) ranked"
    unfolding ranked_def by (rule sortProperties_sorted)
  have s2: "sorted_wrt (\<lambda>a b. sortValue b \<le> sortValue a) out"
    unfolding out_def by (rule kept_rows_sorted [OF s1])
  have s3: "newUsers (out ! i) \<noteq> None"
    if "i < j" "j < length out" "newUsers (out ! j) = Some d" "0 \<le> current d" for i j d
  proof
    assume n: "newUsers (out ! i) = None"
    from s2 that(1,2) have "sortValue (out ! j) \<le> sortValue (out ! i)"
      by (simp add: sorted_wrt_iff_nth_less)
    with n that(3,4) show False
      by (simp add: sortValue_def)
  qed
  have po: "properties \<lparr>updatedAt = nowIso c, window = windowKey, properties = out\<rparr> = out"
    by simp
  have core: "mset ranked = mset merged
      \<and> sorted_wrt (\<lambda>a b. sortValue b \<le> sortValue a) ranked
      \<and> (\<forall>k. filter (\<lambda>a. sortValue a = k) ranked = filter (\<lambda>a. sortValue a = k) merged)
      \<and> out = map ((!) ranked) (filter (kept_at ranked) [0 ..< length ranked])
      \<and> sorted_wrt (\<lambda>a b. sortValue b \<le> sortValue a) out
      \<and> (\<forall>i j d. i < j \<and> j < length out \<and> newUsers (out ! j) = Some d \<and> 0 \<le> current d
             \<longrightarrow> newUsers (out ! i) \<noteq> None)"
    using s1 s2 s3 by (auto simp: ranked_def sortProperties_mset sortProperties_stable out_def)
  have main: "mset ranked = mset merged
      \<and> sorted_wrt (\<lambda>a b. sortValue b \<le> sortValue a) ranked
      \<and> (\<forall>k. filter (\<lambda>a. sortValue a = k) ranked = filter (\<lambda>a. sortValue a = k) merged)
      \<and> properties \<lparr>updatedAt = nowIso c, window = windowKey, properties = out\<rparr>
          = map ((!) ranked) (filter (kept_at ranked) [0 ..< length ranked])
      \<and> sorted_wrt (\<lambda>a b. sortValue b \<le> sortValue a)
          (properties \<lparr>updatedAt = nowIso c, window = windowKey, properties = out\<rparr>)
      \<and> (\<forall>i j d. i < j
             \<and> j < length (properties \<lparr>updatedAt = nowIso c, window = windowKey,
                                        properties = out\<rparr>)
             \<and> newUsers (properties \<lparr>updatedAt = nowIso c, window = windowKey,
                                      properties = out\<rparr> ! j) = Some d
             \<and> 0 \<le> current d
             \<longrightarrow> newUsers (properties \<lparr>updatedAt = nowIso c, window = windowKey,
                                    properties = out\<rparr> ! i) \<noteq> None)"
    unfolding po by (rule core)
  show ?thesis
    unfolding Let_def merged_def [symmetric] ranked_def [symmetric]
    using resp main two_uris by blast
qed

section \<open>Failures of single properties\<close>


lemma set_map_filter: "set (List.map_filter f xs) = {y. \<exists>x\<in>set xs. f x = Some y}"
  by (induction xs) (auto simp: List.map_filter_simps split: option.splits)

lemma present_iff:
  "x \<in> set (presentResults r token filtered) \<longleftrightarrow>
     (\<exists>s\<in>set filtered. streamWorker r token s = Some x)"
  by (simp add: presentResults_def set_map_filter)

lemma streamWorker_Some:
  assumes "streamWorker r token s = Some x"
  shows "sr_summary x = s
     \<and> ((\<exists>err. listDataStreams r token (propertyId s) = Inl err
            \<and> sr_webStream x = None \<and> sr_error x = Some (withErrorMessage err))
        \<or> (\<exists>streams w. listDataStreams r token (propertyId s) = Inr streams
            \<and> pickWebStream streams = Some w
            \<and> sr_webStream x = Some w \<and> sr_error x = None))"
  using assms by (auto simp: streamWorker_def split: sum.splits option.splits)


lemma set_sortProperties: "set (sortProperties xs) = set xs"
  by (simp add: sortProperties_def)

lemma dedupe_subset: "set (dedupeProperties xs) \<subseteq> set xs"
  by (auto simp: dedupeProperties_kept)



lemma merged_ids:
  assumes "row \<in> set (mergedRows r token ranges filtered)"
  shows "\<exists>s\<in>set filtered. \<exists>x. streamWorker r token s = Some x \<and> propertyId row = propertyId s"
proof -
  from assms consider
      (rep) x where "x \<in> set (presentResults r token filtered)" "row = reportWorker r token ranges x"
    | (err) x where "x \<in> set (presentResults r token filtered)" "row = errorRowOf x"
    by (auto simp: mergedRows_def reportTargetsOf_def errorRowsOf_def)
  then show ?thesis
  proof cases
    case rep
    from rep(1) obtain s where s: "s \<in> set filtered" "streamWorker r token s = Some x"
      by (auto simp: present_iff)
    from streamWorker_Some [OF s(2)] have "sr_summary x = s" by simp
    then have "propertyId row = propertyId s"
      by (simp add: rep(2) reportWorker_def split: sum.splits)
    with s show ?thesis by blast
  next
    case err
    from err(1) obtain s where s: "s \<in> set filtered" "streamWorker r token s = Some x"
      by (auto simp: present_iff)
    from streamWorker_Some [OF s(2)] have "sr_summary x = s" by simp
    then have "propertyId row = propertyId s"
      by (simp add: err(2) errorRowOf_def)
    with s show ?thesis by blast
  qed
qed








section \<open>Allowlist and blocklist\<close>

lemma default_blocked: "''508295014'' \<in> set (getBlocklist e)"
  by (simp add: getBlocklist_def DEFAULT_BLOCKLIST_def split: option.splits)

lemma filtered_not_blocked:
  "s \<in> set (filterSummaries e summaries) \<Longrightarrow> propertyId s \<notin> set (getBlocklist e)"
  by (simp add: filterSummaries_def Let_def)

lemma filterSummaries_order:
  "filterSummaries e summaries =
     filter (\<lambda>summary. propertyId summary \<notin> set (getBlocklist e))
       (case getAllowlist e of
          Some ids \<Rightarrow> filter (\<lambda>summary. propertyId summary \<in> set ids) summaries
        | None \<Rightarrow> summaries)"
  by (simp add: filterSummaries_def Let_def)

lemma getPropertyDetail_blocked:
  "pid \<in> set (getBlocklist e) \<Longrightarrow>
   getPropertyDetail e r c pid windowKey =
     ([], Inr \<lparr>pd_updatedAt = nowIso c, pd_window = windowKey,
               pd_property = \<lparr>propertyId = pid, displayName = pid, defaultUri = None\<rparr>,
               pd_summary = None, pd_series = [],
               pd_error = Some ''Property is excluded from the dashboard.''\<rparr>)"
  by (simp add: getPropertyDetail_def Let_def errorDetail_def)

lemma dashboard_rows_not_blocked:
  assumes r: "snd (getDashboardData e r c windowKey) = Inr resp"
    and row: "row \<in> set (properties resp)"
  shows "propertyId row \<notin> set (getBlocklist e)"
proof -
  from r obtain token where tok: "getAccessToken r = Inr token"
    by (cases "getAccessToken r") (auto simp: getDashboardData_def)
  from r tok obtain summaries where cat: "listPropertySummaries r token = Inr summaries"
    by (cases "listPropertySummaries r token") (auto simp: getDashboardData_def Let_def)
  from r row have "row \<in> set (dedupeProperties (sortProperties
       (mergedRows r token (getDateRanges windowKey (nowDay c)) (filterSummaries e summaries))))"
    by (auto simp: getDashboardData_ok [OF tok cat])
  then have "row \<in> set (sortProperties
       (mergedRows r token (getDateRanges windowKey (nowDay c)) (filterSummaries e summaries)))"
    by (rule subsetD [OF dedupe_subset])
  then have "row \<in> set (mergedRows r token (getDateRanges windowKey (nowDay c))
       (filterSummaries e summaries))"
    by (simp add: set_sortProperties)
  from merged_ids [OF this] obtain s where s: "s \<in> set (filterSummaries e summaries)"
    "propertyId row = propertyId s"
    by blast
  from filtered_not_blocked [OF s(1)] s(2) show ?thesis
    by simp
qed

lemma dashboard_calls_not_blocked:
  assumes pid: "pid \<in> set (getBlocklist e)"
  shows "CallListDataStreams pid \<notin> set (fst (getDashboardData e r c windowKey))
     \<and> CallRunReport pid body \<notin> set (fst (getDashboardData e r c windowKey))"
proof (cases "getAccessToken r")
  case (Inl err)
  then show ?thesis by (simp add: getDashboardData_def)
next
  case (Inr token)
  show ?thesis
  proof (cases "listPropertySummaries r token")
    case (Inl err)
    with Inr show ?thesis by (simp add: getDashboardData_def Let_def)
  next
    case cat: (Inr summaries)
    have a: "CallListDataStreams pid \<notin> set (fst (getDashboardData e r c windowKey))"
      using pid filtered_not_blocked [of _ e summaries]
      by (auto simp: getDashboardData_ok [OF Inr cat])
    have "propertyId (sr_summary x) \<noteq> pid"
      if "x \<in> set (reportTargetsOf r token (filterSummaries e summaries))" for x
    proof -
      from that obtain s where s: "s \<in> set (filterSummaries e summaries)"
        "streamWorker r token s = Some x"
        by (auto simp: reportTargetsOf_def present_iff)
      from streamWorker_Some [OF s(2)] have "sr_summary x = s" by simp
      with filtered_not_blocked [OF s(1)] pid show ?thesis by auto
    qed
    then have b: "CallRunReport pid body \<notin> set (fst (getDashboardData e r c windowKey))"
      by (auto simp: getDashboardData_ok [OF Inr cat])
    from a b show ?thesis ..
  qed
qed

text \<open>
  Claim C8. The blocklist always holds the built-in excluded id. The summaries are
  filtered by the allowlist first and by the blocklist after it, so no row of a
  dashboard response carries a blocklisted id, on the allowlist or not, and no stream
  or report request is made for one. For a blocklisted id getPropertyDetail returns at
  once, with no call made (not the token exchange either): no summary, an empty series
  and the exclusion message.
\<close>

theorem blocklist_wins:
  "''508295014'' \<in> set (getBlocklist e)
   \<and> filterSummaries e summaries =
       filter (\<lambda>summary. propertyId summary \<notin> set (getBlocklist e))
         (case getAllowlist e of
            Some ids \<Rightarrow> filter (\<lambda>summary. propertyId summary \<in> set ids) summaries
          | None \<Rightarrow> summaries)
   \<and> (\<forall>resp. snd (getDashboardData e r c windowKey) = Inr resp \<longrightarrow>
         (\<forall>row\<in>set (properties resp). propertyId row \<notin> set (getBlocklist e)))
   \<and> (\<forall>pid\<in>set (getBlocklist e).
         (\<forall>body. CallListDataStreams pid \<notin> set (fst (getDashboardData e r c windowKey))
                \<and> CallRunReport pid body \<notin> set (fst (getDashboardData e r c windowKey)))
         \<and> getPropertyDetail e r c pid windowKey =
             ([], Inr \<lparr>pd_updatedAt = nowIso c, pd_window = windowKey,
                       pd_property = \<lparr>propertyId = pid, displayName = pid, defaultUri = None\<rparr>,
                       pd_summary = None, pd_series = [],
                       pd_error = Some ''Property is excluded from the dashboard.''\<rparr>))"
  using default_blocked filterSummaries_order dashboard_rows_not_blocked
    dashboard_calls_not_blocked getPropertyDetail_blocked
  by (intro conjI allI impI ballI) blast+

section \<open>Window keys\<close>

lemma unknown_window_defaults:
  "param \<notin> Some ` set DASHBOARD_WINDOW_VALUES \<Longrightarrow> dashboardWindowKey param = ''d7''"
  "param \<notin> Some ` set DETAIL_WINDOW_VALUES \<Longrightarrow> detailWindowKey param = ''d7''"
  by (auto simp: dashboardWindowKey_def detailWindowKey_def Let_def split: option.splits)

lemma formatDate_eve: "formatDate (Some 20453) = ''2025-12-31''"
proof -
  have "civil_from_days 20453 = (2025, 12, 31)"
    by code_simp
  then show ?thesis
    by (simp add: formatDate_def string_of_int_def string_of_nat.simps digit_char_def
        padStart2_def)
qed

lemma ranges_d90:
  "getDateRanges ''d90'' 20454 =
     \<lparr>range_current = \<lparr>startDate = ''NaN-NaN-NaN'', endDate = ''2025-12-31''\<rparr>,
      range_previous = \<lparr>startDate = ''NaN-NaN-NaN'', endDate = ''NaN-NaN-NaN''\<rparr>\<rparr>"
proof -
  have w: "WINDOW_DAYS ''d90'' = None"
    by (simp add: WINDOW_DAYS_def)
  have t: "(case civil_from_days 20454 of (y, m, d) \<Rightarrow> DateUTC y (m - 1) d) = Some 20454"
    by (rule todayUtc_eq) simp_all
  have a: "addDays (Some 20454) (Some (- 1)) = Some 20453"
    by (simp add: addDays_Some TimeClip_def)
  show ?thesis
    unfolding getDateRanges_def Let_def w t back_span_def option.case a addDays_None
    by (simp add: formatDate_eve) (simp add: formatDate_def)
qed

text \<open>
  Claim C7. The window keys d1, d7 and d28 stand for 1, 7 and 28 days, the dashboard
  endpoint takes these three only, and a missing or unrecognised value is read as d7.
  The detail endpoint also passes d90, d180 and d365 on unchanged, but WINDOW_DAYS has
  no entry for them: the window length is undefined, the start date of the current
  range and both dates of the previous range are formatted from an invalid date, and
  the series is empty.
\<close>

theorem detail_window_lengths:
  "WINDOW_DAYS ''d1'' = Some 1 \<and> WINDOW_DAYS ''d7'' = Some 7 \<and> WINDOW_DAYS ''d28'' = Some 28
   \<and> dashboardWindowKey (Some ''d1'') = ''d1'' \<and> dashboardWindowKey (Some ''d28'') = ''d28''
   \<and> dashboardWindowKey (Some ''d90'') = ''d7'' \<and> dashboardWindowKey None = ''d7''
   \<and> detailWindowKey (Some ''weekly'') = ''d7''
   \<and> detailWindowKey (Some ''d90'') = ''d90'' \<and> detailWindowKey (Some ''d180'') = ''d180''
   \<and> detailWindowKey (Some ''d365'') = ''d365''
   \<and> WINDOW_DAYS (detailWindowKey (Some ''d90'')) = None
   \<and> WINDOW_DAYS (detailWindowKey (Some ''d180'')) = None
   \<and> WINDOW_DAYS (detailWindowKey (Some ''d365'')) = None
   \<and> getDateRanges (detailWindowKey (Some ''d90'')) 20454 =
     \<lparr>range_current = \<lparr>startDate = ''NaN-NaN-NaN'', endDate = ''2025-12-31''\<rparr>,
      range_previous = \<lparr>startDate = ''NaN-NaN-NaN'', endDate = ''NaN-NaN-NaN''\<rparr>\<rparr>
   \<and> series (buildSeries cr pr currentRows previousRows
         (WINDOW_DAYS (detailWindowKey (Some ''d90'')))) = []"
proof -
  have k: "detailWindowKey (Some ''d90'') = ''d90''" "detailWindowKey (Some ''d180'') = ''d180''"
    "detailWindowKey (Some ''d365'') = ''d365''" "detailWindowKey (Some ''weekly'') = ''d7''"
    by (simp_all add: detailWindowKey_def DETAIL_WINDOW_VALUES_def)
  have d: "dashboardWindowKey (Some ''d1'') = ''d1''" "dashboardWindowKey (Some ''d28'') = ''d28''"
    "dashboardWindowKey (Some ''d90'') = ''d7''" "dashboardWindowKey None = ''d7''"
    by (simp_all add: dashboardWindowKey_def DASHBOARD_WINDOW_VALUES_def)
  have w: "WINDOW_DAYS ''d1'' = Some 1" "WINDOW_DAYS ''d7'' = Some 7" "WINDOW_DAYS ''d28'' = Some 28"
    "WINDOW_DAYS ''d90'' = None" "WINDOW_DAYS ''d180'' = None" "WINDOW_DAYS ''d365'' = None"
    by (simp_all add: WINDOW_DAYS_def)
  show ?thesis
    unfolding k d w ranges_d90 by (simp add: buildSeries_None)
qed

section \<open>Instances\<close>

subsection \<open>The sample inputs, evaluated\<close>

lemma upt_seven: "[0 ..< 7] = [0, 1, 2, 3, 4, 5, 6::nat]"
  by (simp add: upt_rec)

lemma jan_week_start: "parseIsoDate (startDate jan_week) = Some 20454"
  unfolding parseIsoDate_def Let_def jan_week_def
  by (simp add: NumberOfField_def is_digit_def digits_value_def field_number_def
      DateUTC_def MakeDay_def days_from_civil_def TimeClip_def)

lemma dec_week_start: "parseIsoDate (startDate dec_week) = Some 20447"
  unfolding parseIsoDate_def Let_def dec_week_def
  by (simp add: NumberOfField_def is_digit_def digits_value_def field_number_def
      DateUTC_def MakeDay_def days_from_civil_def TimeClip_def)

lemma jan_week_civil:
  "map civil_from_days [20454, 20455, 20456, 20457, 20458, 20459, 20460]
     = [(2026, 1, 1), (2026, 1, 2), (2026, 1, 3), (2026, 1, 4), (2026, 1, 5), (2026, 1, 6),
        (2026, 1, 7)]"
  by code_simp

lemma jan_week_formatted:
  "map (\<lambda>z. formatDate (Some z)) [20454, 20455, 20456, 20457, 20458, 20459, 20460]
     = [''2026-01-01'', ''2026-01-02'', ''2026-01-03'', ''2026-01-04'', ''2026-01-05'',
        ''2026-01-06'', ''2026-01-07'']"
  using jan_week_civil
  by (simp add: formatDate_def string_of_int_def string_of_nat.simps digit_char_def
      padStart2_def)

lemma jan_week_dates:
  "buildDateList (startDate jan_week) (Some 7)
     = [''2026-01-01'', ''2026-01-02'', ''2026-01-03'', ''2026-01-04'', ''2026-01-05'',
        ''2026-01-06'', ''2026-01-07'']"
  using jan_week_formatted
  by (simp add: buildDateList_def jan_week_start upt_seven addDays_Some TimeClip_def)

lemma day_one_rows:
  "seriesRowsOfResponse day_one_response = [\<lparr>date = ''2026-01-01'', value = 30\<rparr>]"
  by (simp add: seriesRowsOfResponse_def day_one_response_def response_rows_def
      row_label_def parseDateDimension_def is_digit_def opt_nth_def metric_number_def)

lemma stray_rows:
  "seriesRowsOfResponse stray_response
     = [\<lparr>date = ''2026-01-01'', value = 30\<rparr>, \<lparr>date = ''(other)'', value = 5\<rparr>]"
  by (simp add: seriesRowsOfResponse_def stray_response_def response_rows_def
      row_label_def parseDateDimension_def is_digit_def opt_nth_def metric_number_def)

lemma two_buckets_delta:
  "newUsersOfResponse two_buckets
     = \<lparr>current = 100, previous = 80, delta = 20, pct = Some (1 / 4)\<rparr>"
  by (simp add: newUsersOfResponse_def two_buckets_def response_rows_def Let_def
      label_step_def row_label_def opt_nth_def metric_number_def opt_length_def)

lemma filter_five:
  "filterSummaries env0 five_properties =
     [\<lparr>propertyId = ''1'', displayName = ''One''\<rparr>,
      \<lparr>propertyId = ''2'', displayName = ''Two''\<rparr>,
      \<lparr>propertyId = ''3'', displayName = ''Three''\<rparr>,
      \<lparr>propertyId = ''4'', displayName = ''Four''\<rparr>]"
  by (simp add: filterSummaries_def env0_def getAllowlist_def getBlocklist_def
      DEFAULT_BLOCKLIST_def five_properties_def)

lemma pick_web_stream:
  "pickWebStream [web_stream uri] = Some \<lparr>ws_defaultUri = Some uri, ws_measurementId = None\<rparr>"
  "pickWebStream [] = None"
  by (simp_all add: pickWebStream_def web_stream_def stream_uri_def stream_measurement_def
      truthy_def Let_def)

lemma remote0_present:
  "presentResults remote0 ''token'' (filterSummaries env0 five_properties) =
     [\<lparr>sr_summary = \<lparr>propertyId = ''1'', displayName = ''One''\<rparr>,
       sr_webStream = Some \<lparr>ws_defaultUri = Some ''https://a.com/'', ws_measurementId = None\<rparr>,
       sr_error = None\<rparr>,
      \<lparr>sr_summary = \<lparr>propertyId = ''2'', displayName = ''Two''\<rparr>,
       sr_webStream = Some \<lparr>ws_defaultUri = Some ''http://a.com'', ws_measurementId = None\<rparr>,
       sr_error = None\<rparr>,
      \<lparr>sr_summary = \<lparr>propertyId = ''3'', displayName = ''Three''\<rparr>,
       sr_webStream = None, sr_error = Some ''Google API error 500''\<rparr>]"
  unfolding presentResults_def filter_five
  by (simp add: List.map_filter_simps streamWorker_def remote0_def pick_web_stream)

lemma remote0_merged:
  "mergedRows remote0 ''token'' ranges (filterSummaries env0 five_properties) =
     [\<lparr>propertyId = ''1'', displayName = ''One'', defaultUri = Some ''https://a.com/'',
       newUsers = Some \<lparr>current = 100, previous = 80, delta = 20, pct = Some (1 / 4)\<rparr>,
       error = None\<rparr>,
      \<lparr>propertyId = ''2'', displayName = ''Two'', defaultUri = Some ''http://a.com'',
       newUsers = None, error = Some DEFAULT_ERROR\<rparr>,
      \<lparr>propertyId = ''3'', displayName = ''Three'', defaultUri = None,
       newUsers = None, error = Some ''Google API error 500''\<rparr>]"
  unfolding mergedRows_def reportTargetsOf_def errorRowsOf_def remote0_present
  by (simp add: truthy_def reportWorker_def errorRowOf_def result_uri_def fetchNewUsers_def
      remote0_def two_buckets_delta)

lemma remote0_run:
  "snd (getDashboardData env0 remote0 clock0 ''d7'') =
     Inr \<lparr>updatedAt = ''2026-01-01T12:00:00.000Z'', window = ''d7'',
          properties =
            [\<lparr>propertyId = ''1'', displayName = ''One'', defaultUri = Some ''https://a.com/'',
              newUsers = Some \<lparr>current = 100, previous = 80, delta = 20, pct = Some (1 / 4)\<rparr>,
              error = None\<rparr>,
             \<lparr>propertyId = ''3'', displayName = ''Three'', defaultUri = None,
              newUsers = None, error = Some ''Google API error 500''\<rparr>]\<rparr>"
proof -
  have tok: "getAccessToken remote0 = Inr ''token''"
    and cat: "listPropertySummaries remote0 ''token'' = Inr five_properties"
    by (simp_all add: remote0_def)
  have n: "normalizeUri ''https://a.com/'' = ''a.com''" "normalizeUri ''http://a.com'' = ''a.com''"
    by (simp_all add: normalizeUri_def starts_with_def toLowerCase_def lower_char_def)
  show ?thesis
    by (simp add: getDashboardData_ok [OF tok cat] remote0_merged sortProperties_def
        sortValue_def dedupeProperties_def dedupe_step_def n clock0_def)
qed

lemma remote_blank_run:
  "snd (getDashboardData env0 remote_blank clock0 ''d7'') =
     Inr \<lparr>updatedAt = ''2026-01-01T12:00:00.000Z'', window = ''d7'',
          properties =
            [\<lparr>propertyId = ''1'', displayName = ''One'', defaultUri = Some [],
              newUsers = Some \<lparr>current = 100, previous = 80, delta = 20, pct = Some (1 / 4)\<rparr>,
              error = None\<rparr>,
             \<lparr>propertyId = ''2'', displayName = ''Two'', defaultUri = Some [],
              newUsers = Some \<lparr>current = 100, previous = 80, delta = 20, pct = Some (1 / 4)\<rparr>,
              error = None\<rparr>]\<rparr>"
proof -
  have tok: "getAccessToken remote_blank = Inr ''token''"
    and cat: "listPropertySummaries remote_blank ''token''
          = Inr [\<lparr>propertyId = ''1'', displayName = ''One''\<rparr>,
                 \<lparr>propertyId = ''2'', displayName = ''Two''\<rparr>]"
    by (simp_all add: remote_blank_def)
  have fl: "filterSummaries env0 [\<lparr>propertyId = ''1'', displayName = ''One''\<rparr>,
                 \<lparr>propertyId = ''2'', displayName = ''Two''\<rparr>]
      = [\<lparr>propertyId = ''1'', displayName = ''One''\<rparr>, \<lparr>propertyId = ''2'', displayName = ''Two''\<rparr>]"
    by (simp add: filterSummaries_def env0_def getAllowlist_def getBlocklist_def
        DEFAULT_BLOCKLIST_def)
  have pr: "presentResults remote_blank ''token''
        [\<lparr>propertyId = ''1'', displayName = ''One''\<rparr>, \<lparr>propertyId = ''2'', displayName = ''Two''\<rparr>]
      = [\<lparr>sr_summary = \<lparr>propertyId = ''1'', displayName = ''One''\<rparr>,
          sr_webStream = Some \<lparr>ws_defaultUri = Some [], ws_measurementId = None\<rparr>,
          sr_error = None\<rparr>,
         \<lparr>sr_summary = \<lparr>propertyId = ''2'', displayName = ''Two''\<rparr>,
          sr_webStream = Some \<lparr>ws_defaultUri = Some [], ws_measurementId = None\<rparr>,
          sr_error = None\<rparr>]"
    unfolding presentResults_def
    by (simp add: List.map_filter_simps streamWorker_def remote_blank_def pick_web_stream)
  have mg: "mergedRows remote_blank ''token'' ranges
        [\<lparr>propertyId = ''1'', displayName = ''One''\<rparr>, \<lparr>propertyId = ''2'', displayName = ''Two''\<rparr>]
      = [\<lparr>propertyId = ''1'', displayName = ''One'', defaultUri = Some [],
              newUsers = Some \<lparr>current = 100, previous = 80, delta = 20, pct = Some (1 / 4)\<rparr>,
              error = None\<rparr>,
             \<lparr>propertyId = ''2'', displayName = ''Two'', defaultUri = Some [],
              newUsers = Some \<lparr>current = 100, previous = 80, delta = 20, pct = Some (1 / 4)\<rparr>,
              error = None\<rparr>]" for ranges
    unfolding mergedRows_def reportTargetsOf_def errorRowsOf_def pr
    by (simp add: truthy_def reportWorker_def errorRowOf_def result_uri_def fetchNewUsers_def
        remote_blank_def two_buckets_delta)
  show ?thesis
    unfolding getDashboardData_ok [OF tok cat] fl mg
    by (simp add: sortProperties_def sortValue_def dedupeProperties_def dedupe_step_def
        clock0_def)
qed

lemma env_both_lists:
  "getAllowlist env_both = Some [''1'', ''2'']"
  "getBlocklist env_both = [''508295014'', ''2'']"
  by (simp_all add: getAllowlist_def getBlocklist_def env_both_def id_list_def trim_def
      is_blank_def DEFAULT_BLOCKLIST_def)



subsection \<open>The properties at the sample inputs\<close>


theorem fetchNewUsers_policy_witness:
  "\<not> flat_row (response_rows two_buckets)
   \<and> bucket_value ''date_range_0'' (response_rows two_buckets) = 100
   \<and> bucket_value ''date_range_1'' (response_rows two_buckets) = 80
   \<and> (\<exists>out. fetchNewUsers (Inr two_buckets) = Inr out
          \<and> current out = 100 \<and> previous out = 80 \<and> delta out = 20 \<and> pct out = Some (1 / 4))"
proof -
  have nf: "\<not> flat_row (response_rows two_buckets)"
    by (simp add: flat_row_def response_rows_def two_buckets_def)
  have b0: "bucket_value ''date_range_0'' (response_rows two_buckets) = 100"
    by (simp add: bucket_value_def response_rows_def two_buckets_def row_label_def
        opt_nth_def metric_number_def)
  have b1: "bucket_value ''date_range_1'' (response_rows two_buckets) = 80"
    by (simp add: bucket_value_def response_rows_def two_buckets_def row_label_def
        opt_nth_def metric_number_def)
  from fetchNewUsers_policy [of two_buckets] obtain out where
    o: "fetchNewUsers (Inr two_buckets) = Inr out"
      "\<not> flat_row (response_rows two_buckets) \<longrightarrow>
          current out = bucket_value ''date_range_0'' (response_rows two_buckets)
          \<and> previous out = bucket_value ''date_range_1'' (response_rows two_buckets)"
      "delta out = current out - previous out"
      "pct out = (if previous out = 0 then None
                  else Some (of_int (delta out) / of_int (previous out)))"
    by blast
  from o nf b0 b1 have "current out = 100" "previous out = 80"
    by auto
  with o show ?thesis
    using nf b0 b1 by auto
qed

theorem buildSeries_alignment_witness:
  "parseIsoDate (startDate jan_week) = Some 20454
   \<and> parseIsoDate (startDate dec_week) = Some 20447
   \<and> (20454::int) + int 7 \<le> 100000000 \<and> (20447::int) + int 7 \<le> 100000000
   \<and> - 573371 \<le> (20454::int) \<and> (0::nat) < 7
   \<and> seriesRowsOfResponse day_one_response = [\<lparr>date = ''2026-01-01'', value = 30\<rparr>]
   \<and> length (series (buildSeries jan_week dec_week
          (seriesRowsOfResponse day_one_response) [] (Some 7))) = 7
   \<and> map pt_current (series (buildSeries jan_week dec_week
          (seriesRowsOfResponse day_one_response) [] (Some 7))) = [30, 0, 0, 0, 0, 0, 0]
   \<and> pt_date (series (buildSeries jan_week dec_week
          (seriesRowsOfResponse day_one_response) [] (Some 7)) ! 2) = ''2026-01-03''"
proof -
  have h3: "(20454::int) + int 7 \<le> 100000000" "(20447::int) + int 7 \<le> 100000000"
    by simp_all
  have f1: "formatDate (Some 20454) = ''2026-01-01''"
    and f3: "formatDate (Some 20456) = ''2026-01-03''"
    using jan_week_formatted by simp_all
  have r6: "replicate 6 (0::int) = [0, 0, 0, 0, 0, 0]"
    by (simp add: numeral_eq_Suc)
  from buildSeries_alignment [OF jan_week_start dec_week_start h3,
      of "seriesRowsOfResponse day_one_response" "[]" 30]
  show ?thesis
    using jan_week_start dec_week_start day_one_rows by (simp add: f1 f3 r6)
qed

theorem buildSeries_ignores_out_of_range_witness:
  "date \<lparr>date = ''(other)'', value = 5\<rparr> \<notin> set (buildDateList (startDate jan_week) (Some 7))
   \<and> seriesRowsOfResponse stray_response
       = [\<lparr>date = ''2026-01-01'', value = 30\<rparr>] @ \<lparr>date = ''(other)'', value = 5\<rparr> # []
   \<and> buildSeries jan_week dec_week (seriesRowsOfResponse stray_response) [] (Some 7)
       = buildSeries jan_week dec_week ([\<lparr>date = ''2026-01-01'', value = 30\<rparr>] @ []) [] (Some 7)
   \<and> currentTotal (buildSeries jan_week dec_week (seriesRowsOfResponse stray_response) []
         (Some 7)) = 30"
proof -
  have out: "date \<lparr>date = ''(other)'', value = 5\<rparr>
      \<notin> set (buildDateList (startDate jan_week) (Some 7))"
    by (simp add: jan_week_dates)
  have rs: "seriesRowsOfResponse stray_response
       = [\<lparr>date = ''2026-01-01'', value = 30\<rparr>] @ \<lparr>date = ''(other)'', value = 5\<rparr> # []"
    by (simp add: stray_rows)
  have rv: "map (recorded_value (seriesRowsOfResponse stray_response))
      [''2026-01-01'', ''2026-01-02'', ''2026-01-03'', ''2026-01-04'', ''2026-01-05'',
         ''2026-01-06'', ''2026-01-07''] = [30, 0, 0, 0, 0, 0, 0]"
    by (simp add: stray_rows recorded_value_def)
  note inst = buildSeries_ignores_out_of_range [where row = "\<lparr>date = ''(other)'', value = 5\<rparr>"
      and cr = jan_week and days = "Some 7" and pr = dec_week
      and xs = "[\<lparr>date = ''2026-01-01'', value = 30\<rparr>]" and ys = "[]"
      and previousRows = "[]" and currentRows = "seriesRowsOfResponse stray_response"]
  from inst out have same:
    "buildSeries jan_week dec_week (seriesRowsOfResponse stray_response) [] (Some 7)
       = buildSeries jan_week dec_week ([\<lparr>date = ''2026-01-01'', value = 30\<rparr>] @ []) []
           (Some 7)"
    by (simp only: rs) blast
  from inst have
    "currentTotal (buildSeries jan_week dec_week (seriesRowsOfResponse stray_response) []
         (Some 7))
       = sum_list (map (recorded_value (seriesRowsOfResponse stray_response))
           (buildDateList (startDate jan_week) (Some 7)))"
    by blast
  then have total:
    "currentTotal (buildSeries jan_week dec_week (seriesRowsOfResponse stray_response) []
         (Some 7)) = 30"
    by (simp only: jan_week_dates rv) simp
  show ?thesis
    using out rs same total by blast
qed

theorem series_totals_counterexample:
  "fetchNewUsers (Inr (aggregateResponse (seriesRowsOfResponse stray_response) []))
     \<noteq> Inr (summaryOfSeries (buildSeries jan_week dec_week
              (seriesRowsOfResponse stray_response) [] (Some 7)))"
proof -
  have l: "current (newUsersOfResponse
             (aggregateResponse (seriesRowsOfResponse stray_response) [])) = 35"
    by (simp add: newUsers_aggregate stray_rows Let_def)
  have r: "current (summaryOfSeries (buildSeries jan_week dec_week
              (seriesRowsOfResponse stray_response) [] (Some 7))) = 30"
    by (simp add: summaryOfSeries_def Let_def totals_buildSeries jan_week_dates stray_rows
        recorded_value_def)
  show ?thesis
    using l r by (auto simp: fetchNewUsers_def)
qed

theorem series_totals_match_summary_mode_witness:
  "parseIsoDate (startDate jan_week) = Some 20454
   \<and> parseIsoDate (startDate dec_week) = Some 20447
   \<and> distinct (map date (seriesRowsOfResponse day_one_response))
   \<and> set (map date (seriesRowsOfResponse day_one_response))
        \<subseteq> set (buildDateList (startDate jan_week) (Some 7))
   \<and> fetchNewUsers (Inr (aggregateResponse (seriesRowsOfResponse day_one_response) []))
       = Inr (summaryOfSeries (buildSeries jan_week dec_week
                (seriesRowsOfResponse day_one_response) [] (Some 7)))
   \<and> current (summaryOfSeries (buildSeries jan_week dec_week
                (seriesRowsOfResponse day_one_response) [] (Some 7))) = 30"
proof -
  have d: "distinct (map date (seriesRowsOfResponse day_one_response))"
    by (simp add: day_one_rows)
  have s: "set (map date (seriesRowsOfResponse day_one_response))
        \<subseteq> set (buildDateList (startDate jan_week) (Some 7))"
    by (simp add: day_one_rows jan_week_dates)
  have e: "distinct (map date ([] :: SeriesRow list))"
    "set (map date ([] :: SeriesRow list)) \<subseteq> set (buildDateList (startDate dec_week) (Some 7))"
    by simp_all
  note m = series_totals_match_summary_mode [OF jan_week_start dec_week_start _ _ _ _ d s e]
  have eq: "fetchNewUsers (Inr (aggregateResponse (seriesRowsOfResponse day_one_response) []))
       = Inr (summaryOfSeries (buildSeries jan_week dec_week
                (seriesRowsOfResponse day_one_response) [] (Some 7)))"
    by (rule m) simp_all
  have "current (newUsersOfResponse
          (aggregateResponse (seriesRowsOfResponse day_one_response) [])) = 30"
    by (simp add: newUsers_aggregate day_one_rows Let_def)
  with eq have "current (summaryOfSeries (buildSeries jan_week dec_week
                (seriesRowsOfResponse day_one_response) [] (Some 7))) = 30"
    by (simp add: fetchNewUsers_def)
  then show ?thesis
    using jan_week_start dec_week_start d s eq by blast
qed

theorem runLimited_preserves_order_witness:
  "(1::nat) \<le> 2
   \<and> runLimited [10, 20, 30::nat] 2 (\<lambda>x i. Inr (x + i)) = Inr [Some 10, Some 21, Some 32]
   \<and> reject_second ([10, 20] ! 1) 1 = Inl OtherThrown
   \<and> runLimited [10, 20] 1 reject_second = Inl OtherThrown"
proof -
  have ok: "\<forall>i<length [10, 20, 30::nat].
         (\<lambda>x i. Inr (x + i) :: thrown + nat) ([10, 20, 30] ! i) i = Inr ([10, 21, 32] ! i)"
    by (simp add: nth_Cons less_Suc_eq numeral_3_eq_3 split: nat.splits)
  have l: "(1::nat) \<le> 2" and l1: "(1::nat) \<le> 1"
    by simp_all
  have m: "map (\<lambda>i. Some ([10, 21, 32::nat] ! i)) [0 ..< length [10, 20, 30::nat]]
      = [Some 10, Some 21, Some 32]"
    by (simp add: upt_rec)
  note inst = runLimited_preserves_order [where limit = 2 and items = "[10, 20, 30::nat]"
      and worker = "\<lambda>x i. Inr (x + i)" and w = "\<lambda>i. [10, 21, 32] ! i"]
  from inst [OF l, THEN conjunct1, THEN mp, OF ok] have
    "runLimited [10, 20, 30::nat] 2 (\<lambda>x i. Inr (x + i))
       = Inr (map (\<lambda>i. Some ([10, 21, 32::nat] ! i)) [0 ..< length [10, 20, 30::nat]])"
    by (rule conjunct1)
  with m have a: "runLimited [10, 20, 30::nat] 2 (\<lambda>x i. Inr (x + i))
       = Inr [Some 10, Some 21, Some 32]"
    by simp
  have rj: "reject_second ([10, 20] ! 1) 1 = Inl OtherThrown"
    by (simp add: reject_second_def)
  then have ex: "\<exists>i<length [10, 20::nat]. \<exists>e. reject_second ([10, 20] ! i) i = Inl e"
    by (intro exI [of _ 1]) simp
  note inst2 = runLimited_preserves_order [where limit = 1 and items = "[10, 20::nat]"
      and worker = reject_second and w = "\<lambda>i. i"]
  from inst2 [OF l1, THEN conjunct2, THEN conjunct1, THEN mp, OF ex, THEN conjunct1]
  obtain i e where "reject_second ([10, 20] ! i) i = Inl e"
    and "runLimited [10, 20] 1 reject_second = Inl e"
    by blast
  then have b: "runLimited [10, 20] 1 reject_second = Inl OtherThrown"
    by (simp add: reject_second_def split: if_splits)
  show ?thesis
    by (intro conjI) (rule l a rj b)+
qed

theorem runLimited_rejection_counterexample:
  "reject_second 10 0 = Inr 10 \<and> reject_second 20 1 = Inl OtherThrown
   \<and> reject_second 30 2 = Inr 32
   \<and> runLimited [10, 20, 30] 2 reject_second = Inl OtherThrown"
  by (simp add: runLimited_def launch_eq drain.simps resume_def loop_head_def reject_second_def
      upt_rec)

theorem dashboard_dedup_counterexample:
  "normalizeUri [] = normalizeUri []
   \<and> snd (getDashboardData env0 remote_blank clock0 ''d7'') =
     Inr \<lparr>updatedAt = ''2026-01-01T12:00:00.000Z'', window = ''d7'',
          properties =
            [\<lparr>propertyId = ''1'', displayName = ''One'', defaultUri = Some [],
              newUsers = Some \<lparr>current = 100, previous = 80, delta = 20, pct = Some (1 / 4)\<rparr>,
              error = None\<rparr>,
             \<lparr>propertyId = ''2'', displayName = ''Two'', defaultUri = Some [],
              newUsers = Some \<lparr>current = 100, previous = 80, delta = 20, pct = Some (1 / 4)\<rparr>,
              error = None\<rparr>]\<rparr>"
  using remote_blank_run by simp

theorem dashboard_sorted_and_deduplicated_witness:
  "getAccessToken remote0 = Inr ''token''
   \<and> listPropertySummaries remote0 ''token'' = Inr five_properties
   \<and> (\<exists>resp. snd (getDashboardData env0 remote0 clock0 ''d7'') = Inr resp
        \<and> sorted_wrt (\<lambda>a b. sortValue b \<le> sortValue a) (properties resp)
        \<and> map propertyId (properties resp) = [''1'', ''3''])"
proof -
  have tok: "getAccessToken remote0 = Inr ''token''"
    and cat: "listPropertySummaries remote0 ''token'' = Inr five_properties"
    by (simp_all add: remote0_def)
  from dashboard_sorted_and_deduplicated [OF tok cat, of env0 clock0 "''d7''"]
  obtain resp where r: "snd (getDashboardData env0 remote0 clock0 ''d7'') = Inr resp"
    and s: "sorted_wrt (\<lambda>a b. sortValue b \<le> sortValue a) (properties resp)"
    unfolding Let_def by (elim exE conjE) (rule that)
  from r have m: "map propertyId (properties resp) = [''1'', ''3'']"
    by (auto simp: remote0_run)
  show ?thesis
    by (intro conjI exI [of _ resp]) (rule tok cat r s m)+
qed



theorem blocklist_wins_witness:
  "''2'' \<in> set (the (getAllowlist env_both)) \<and> ''2'' \<in> set (getBlocklist env_both)
   \<and> map propertyId (filterSummaries env_both five_properties) = [''1'']
   \<and> getPropertyDetail env_both remote0 clock0 ''2'' ''d7'' =
       ([], Inr \<lparr>pd_updatedAt = ''2026-01-01T12:00:00.000Z'', pd_window = ''d7'',
                 pd_property = \<lparr>propertyId = ''2'', displayName = ''2'', defaultUri = None\<rparr>,
                 pd_summary = None, pd_series = [],
                 pd_error = Some ''Property is excluded from the dashboard.''\<rparr>)"
proof -
  note big = blocklist_wins [of env_both five_properties remote0 clock0 "''d7''"]
  have a: "''2'' \<in> set (the (getAllowlist env_both))"
    and b: "''2'' \<in> set (getBlocklist env_both)"
    by (simp_all add: env_both_lists)
  from big have "filterSummaries env_both five_properties =
       filter (\<lambda>summary. propertyId summary \<notin> set (getBlocklist env_both))
         (case getAllowlist env_both of
            Some ids \<Rightarrow> filter (\<lambda>summary. propertyId summary \<in> set ids) five_properties
          | None \<Rightarrow> five_properties)"
    by (elim conjE)
  then have f: "map propertyId (filterSummaries env_both five_properties) = [''1'']"
    by (simp add: env_both_lists five_properties_def)
  from big have "\<forall>pid\<in>set (getBlocklist env_both).
         (\<forall>body. CallListDataStreams pid \<notin> set (fst (getDashboardData env_both remote0 clock0 ''d7''))
                \<and> CallRunReport pid body \<notin> set (fst (getDashboardData env_both remote0 clock0 ''d7'')))
         \<and> getPropertyDetail env_both remote0 clock0 pid ''d7'' =
             ([], Inr \<lparr>pd_updatedAt = nowIso clock0, pd_window = ''d7'',
                       pd_property = \<lparr>propertyId = pid, displayName = pid, defaultUri = None\<rparr>,
                       pd_summary = None, pd_series = [],
                       pd_error = Some ''Property is excluded from the dashboard.''\<rparr>)"
    by (elim conjE)
  from bspec [OF this b, THEN conjunct2]
  have d: "getPropertyDetail env_both remote0 clock0 ''2'' ''d7'' =
       ([], Inr \<lparr>pd_updatedAt = ''2026-01-01T12:00:00.000Z'', pd_window = ''d7'',
                 pd_property = \<lparr>propertyId = ''2'', displayName = ''2'', defaultUri = None\<rparr>,
                 pd_summary = None, pd_series = [],
                 pd_error = Some ''Property is excluded from the dashboard.''\<rparr>)"
    by (simp add: clock0_def)
  show ?thesis
    by (intro conjI) (rule a b f d)+
qed

end
